theory Spec2Isabelle
  imports Complex_Main "HOL-Library.AList"
begin

section \<open>The collector package of pipeline-service-exporter\<close>

text \<open>
  A shallow embedding of the overhead and liveness code of the exporter's collector
  package: the helpers of the common file (throttle detection and tagging, the sorting
  of a run's task runs, \<open>calculateGaps\<close>, \<open>filter\<close>, the deadlock tracker) and the
  overhead reconciler (\<open>accumulateGaps\<close>, \<open>ReconcileOverhead\<close>).

  Conventions.
  \<^item> A Go pointer that may be nil is an \<open>option\<close>; dereferencing nil is the value
    \<open>Inl NilPointerDereference\<close> of the function that does it.
  \<^item> A Go \<open>map[string]string\<close> that is only looked up and assigned is a map
    \<open>string \<rightharpoonup> string\<close>; reading a missing key of a Go map gives the empty string and
    \<open>ok = false\<close>, which is \<open>None\<close> here. A nil map and an empty map read alike.
  \<^item> A Go map that the code ranges over is an association list, read with
    \<open>map_of\<close> and written with \<open>AList.update\<close>; the order of the list is one of the
    orders the Go runtime may iterate in.
  \<^item> The Kubernetes client is a record of functions: what a \<open>Get\<close> and a \<open>Patch\<close>
    answer. Logging is left out.
\<close>

subsection \<open>Time\<close>

text \<open>
  A \<open>time.Time\<close> is an instant in nanoseconds counted from Go's zero time (the value of
  \<open>time.Time{}\<close>), a \<open>time.Duration\<close> a number of nanoseconds in the int64 range.
  \<open>Time.Sub\<close> saturates at the largest and smallest Duration; \<open>Duration.Milliseconds\<close>
  is the int64 division by \<open>1e6\<close>, which truncates toward zero.
\<close>

type_synonym Time = int
type_synonym Duration = int

definition maxDuration :: Duration where
  "maxDuration = 9223372036854775807"

definition minDuration :: Duration where
  "minDuration = - 9223372036854775808"

definition Sub :: "Time \<Rightarrow> Time \<Rightarrow> Duration" where
  "Sub t u =
     (let d = t - u
      in if maxDuration < d then maxDuration
         else if d < minDuration then minDuration
         else d)"

definition Milliseconds :: "Duration \<Rightarrow> int" where
  "Milliseconds d = (if d < 0 then - ((- d) div 1000000) else d div 1000000)"

definition Before :: "Time \<Rightarrow> Time \<Rightarrow> bool" where
  "Before t u = (t < u)"

definition After :: "Time \<Rightarrow> Time \<Rightarrow> bool" where
  "After t u = (u < t)"

definition IsZero :: "Time \<Rightarrow> bool" where
  "IsZero t = (t = 0)"

subsection \<open>Conditions\<close>

text \<open>
  A knative condition, with the fields the package reads. \<open>corev1.ConditionStatus\<close> and
  \<open>apis.ConditionType\<close> are string types. \<open>GetCondition\<close> returns the first condition
  of the asked type, or nil; \<open>IsUnknown\<close> holds of a nil condition, \<open>IsFalse\<close> does not.
\<close>

record Condition =
  cond_Type :: string
  cond_Status :: string
  cond_Reason :: string

definition ConditionSucceeded :: string where
  "ConditionSucceeded = ''Succeeded''"

definition ConditionTrue :: string where
  "ConditionTrue = ''True''"

definition ConditionFalse :: string where
  "ConditionFalse = ''False''"

definition ConditionUnknown :: string where
  "ConditionUnknown = ''Unknown''"

definition ReasonExceededResourceQuota :: string where
  "ReasonExceededResourceQuota = ''ExceededResourceQuota''"

definition ReasonExceededNodeResources :: string where
  "ReasonExceededNodeResources = ''ExceededNodeResources''"

fun GetCondition :: "string \<Rightarrow> Condition list \<Rightarrow> Condition option" where
  "GetCondition t [] = None"
| "GetCondition t (c # cs) = (if cond_Type c = t then Some c else GetCondition t cs)"

definition IsUnknown :: "Condition option \<Rightarrow> bool" where
  "IsUnknown c = (case c of None \<Rightarrow> True | Some x \<Rightarrow> cond_Status x = ConditionUnknown)"

definition IsFalse :: "Condition option \<Rightarrow> bool" where
  "IsFalse c = (case c of None \<Rightarrow> False | Some x \<Rightarrow> cond_Status x = ConditionFalse)"

subsection \<open>Task runs and pipeline runs\<close>

record TaskRun =
  tr_Name :: string
  tr_Labels :: "string \<rightharpoonup> string"
  tr_CreationTimestamp :: Time
  tr_CompletionTime :: "Time option"
  tr_Conditions :: "Condition list"

text \<open>The zero value \<open>&v1.TaskRun{}\<close>, which a failed \<open>Get\<close> leaves untouched.\<close>

definition zeroTaskRun :: TaskRun where
  "zeroTaskRun =
     \<lparr>tr_Name = [], tr_Labels = Map.empty, tr_CreationTimestamp = 0,
      tr_CompletionTime = None, tr_Conditions = []\<rparr>"

record ChildStatusReference =
  ref_Kind :: string
  ref_Name :: string

text \<open>A pipeline reference: its name and its parameters as (name, string value) pairs.\<close>

record PipelineRef =
  pref_Name :: string
  pref_Params :: "(string \<times> string) list"

record PipelineRun =
  pr_Namespace :: string
  pr_Name :: string
  pr_GenerateName :: string
  pr_Labels :: "string \<rightharpoonup> string"
  pr_CreationTimestamp :: Time
  pr_PipelineRef :: "PipelineRef option"
  pr_Conditions :: "Condition list"
  pr_StartTime :: "Time option"
  pr_CompletionTime :: "Time option"
  pr_ChildReferences :: "ChildStatusReference list"

subsection \<open>What the code calls outside the package\<close>

text \<open>
  \<open>ApiError\<close>: the error of a client call; \<open>errors.IsNotFound\<close> holds of \<open>NotFound\<close> only.
\<close>

datatype ApiError = NotFound | OtherError string

definition IsNotFound :: "ApiError \<Rightarrow> bool" where
  "IsNotFound e = (e = NotFound)"

text \<open>
  The client: \<open>Get\<close> of a task run and of a pipeline run by namespace and name, and
  \<open>Patch\<close> of a changed pipeline run against the run it was copied from.
\<close>

record Client =
  getTaskRun :: "string \<Rightarrow> string \<Rightarrow> ApiError + TaskRun"
  getPipelineRun :: "string \<Rightarrow> string \<Rightarrow> ApiError + PipelineRun"
  patchPipelineRun :: "PipelineRun \<Rightarrow> PipelineRun \<Rightarrow> ApiError option"

text \<open>
  A float64 as the comparisons of \<open>filter\<close> see it: a finite value, an infinity or NaN.
  Every comparison with NaN is false.
\<close>

datatype float64 = Fin real | PosInf | NegInf | NaN

fun f64_less :: "float64 \<Rightarrow> float64 \<Rightarrow> bool" where
  "f64_less NaN y = False"
| "f64_less x NaN = False"
| "f64_less (Fin a) (Fin b) = (a < b)"
| "f64_less (Fin a) PosInf = True"
| "f64_less (Fin a) NegInf = False"
| "f64_less PosInf y = False"
| "f64_less NegInf NegInf = False"
| "f64_less NegInf y = True"

text \<open>
  The standard library and the process environment: \<open>strings.TrimSpace\<close>, \<open>os.Getenv\<close>
  (the empty string for a variable that is not set) and \<open>strconv.ParseFloat\<close> at 64
  bits (\<open>None\<close> when it returns an error). They are parameters of the model.
\<close>

record Platform =
  TrimSpace :: "string \<Rightarrow> string"
  Getenv :: "string \<Rightarrow> string"
  ParseFloat :: "string \<Rightarrow> float64 option"

subsection \<open>Constants\<close>

definition FILTER_THRESHOLD :: string where
  "FILTER_THRESHOLD = ''FILTER_THRESHOLD''"

definition DEFAULT_THRESHOLD :: float64 where
  "DEFAULT_THRESHOLD = Fin 300000"

definition SUCCEEDED :: string where
  "SUCCEEDED = ''succeded''"

definition FAILED :: string where
  "FAILED = ''failed''"

definition THROTTLED_LABEL :: string where
  "THROTTLED_LABEL = ''pipelineservice.appstudio.io/throttled''"

definition TaskLabelKey :: string where
  "TaskLabelKey = ''tekton.dev/task''"

definition PipelineTaskLabelKey :: string where
  "PipelineTaskLabelKey = ''tekton.dev/pipelineTask''"

definition ClusterTaskLabelKey :: string where
  "ClusterTaskLabelKey = ''tekton.dev/clusterTask''"

definition TaskRunLabelKey :: string where
  "TaskRunLabelKey = ''tekton.dev/taskRun''"

subsection \<open>Names for the metrics' labels\<close>

text \<open>Reading a label: the value, or the empty string when the key is missing.\<close>

definition label :: "(string \<rightharpoonup> string) \<Rightarrow> string \<Rightarrow> string" where
  "label labels k = (case labels k of None \<Rightarrow> [] | Some v \<Rightarrow> v)"

fun firstNameParam :: "Platform \<Rightarrow> (string \<times> string) list \<Rightarrow> string option" where
  "firstNameParam rt [] = None"
| "firstNameParam rt (p # ps) =
     (if TrimSpace rt (fst p) = ''name'' then Some (snd p) else firstNameParam rt ps)"

definition pipelineRunPipelineRef :: "Platform \<Rightarrow> PipelineRun \<Rightarrow> string" where
  "pipelineRunPipelineRef rt pr =
     (case pr_PipelineRef pr of
        Some ref \<Rightarrow>
          (let val = pref_Name ref
           in if length val = 0
              then (case firstNameParam rt (pref_Params ref) of
                      Some v \<Rightarrow> v
                    | None \<Rightarrow> val)
              else val)
      | None \<Rightarrow>
          (if length (pr_GenerateName pr) > 0 then pr_GenerateName pr else pr_Name pr))"

definition taskRef :: "(string \<rightharpoonup> string) \<Rightarrow> string" where
  "taskRef labels =
     (let task = label labels TaskLabelKey;
          pipelineTask = label labels PipelineTaskLabelKey;
          clusterTask = label labels ClusterTaskLabelKey;
          taskRun = label labels TaskRunLabelKey
      in if length task > 0 then task
         else if length pipelineTask > 0 then pipelineTask
         else if length clusterTask > 0 then clusterTask
         else if length taskRun > 0 then taskRun
         else [])"

definition calculateScheduledDuration :: "Time \<Rightarrow> Time \<Rightarrow> int" where
  "calculateScheduledDuration created started =
     (if IsZero created \<or> IsZero started then 0 else Milliseconds (Sub started created))"

subsection \<open>The throttle detector\<close>

definition isTaskRunThrottled :: "TaskRun \<Rightarrow> bool" where
  "isTaskRunThrottled tr =
     (case GetCondition ConditionSucceeded (tr_Conditions tr) of
        None \<Rightarrow> False
      | Some succeedCondition \<Rightarrow>
          if cond_Status succeedCondition = ConditionUnknown
          then (if cond_Reason succeedCondition = ReasonExceededResourceQuota then True
                else if cond_Reason succeedCondition = ReasonExceededNodeResources then True
                else False)
          else False)"

text \<open>
  The loop of \<open>isPipelineRunThrottled\<close> over the child references. On a not-found error
  the task run read is still the zero value. The result is (throttled, throttledTaskRun,
  err).
\<close>

fun throttledLoop ::
  "Client \<Rightarrow> string \<Rightarrow> ChildStatusReference list \<Rightarrow> bool \<times> string \<times> ApiError option" where
  "throttledLoop oc ns [] = (False, [], None)"
| "throttledLoop oc ns (kidRef # rest) =
     (if ref_Kind kidRef \<noteq> ''TaskRun'' then throttledLoop oc ns rest
      else
        (case getTaskRun oc ns (ref_Name kidRef) of
           Inl err \<Rightarrow>
             if \<not> IsNotFound err then (False, [], Some err)
             else if isTaskRunThrottled zeroTaskRun then (True, tr_Name zeroTaskRun, None)
             else throttledLoop oc ns rest
         | Inr kid \<Rightarrow>
             if isTaskRunThrottled kid then (True, tr_Name kid, None)
             else throttledLoop oc ns rest))"

definition isPipelineRunThrottled :: "Client \<Rightarrow> PipelineRun \<Rightarrow> bool \<times> string \<times> ApiError option" where
  "isPipelineRunThrottled oc pr = throttledLoop oc (pr_Namespace pr) (pr_ChildReferences pr)"

fun isPipelineRunGoing :: "ChildStatusReference list \<Rightarrow> bool" where
  "isPipelineRunGoing [] = False"
| "isPipelineRunGoing (kidRef # rest) =
     (if ref_Kind kidRef \<noteq> ''TaskRun'' then isPipelineRunGoing rest else True)"

text \<open>
  \<open>tagPipelineRunsWithTaskRunsGettingThrottled\<close>: the error returned, and the pipeline
  runs handed to \<open>Patch\<close> (none or one), in call order.
\<close>

definition tagPipelineRunsWithTaskRunsGettingThrottled ::
  "Client \<Rightarrow> PipelineRun \<Rightarrow> ApiError option \<times> PipelineRun list" where
  "tagPipelineRunsWithTaskRunsGettingThrottled oc pr =
     (case isPipelineRunThrottled oc pr of
        (throttled, throttledTaskRun, Some err) \<Rightarrow> (Some err, [])
      | (throttled, throttledTaskRun, None) \<Rightarrow>
          (let previouslyLabelled = (pr_Labels pr THROTTLED_LABEL \<noteq> None)
           in if throttled \<and> \<not> previouslyLabelled
              then
                (let changedPR = pr\<lparr>pr_Labels := (pr_Labels pr)(THROTTLED_LABEL \<mapsto> throttledTaskRun)\<rparr>
                 in case patchPipelineRun oc changedPR pr of
                      Some err \<Rightarrow> if IsNotFound err then (Some err, [changedPR]) else (None, [changedPR])
                    | None \<Rightarrow> (None, [changedPR]))
              else (None, [])))"

subsection \<open>Sorting the task runs of a run\<close>

text \<open>
  A Go panic, as a value: the nil pointer dereference, and the index out of range.
\<close>

datatype GoPanic = NilPointerDereference | IndexOutOfRange

definition skipPipelineRun :: "PipelineRun \<Rightarrow> bool" where
  "skipPipelineRun pr =
     (if length (pr_ChildReferences pr) < 1 then True
      else if pr_CompletionTime pr = None then True
      else if pr_Labels pr THROTTLED_LABEL \<noteq> None then True
      else False)"

text \<open>
  \<open>sort.SliceStable\<close> with the comparison \<open>lessFn\<close>: the stable sort, here by insertion
  from the right. An element goes behind the elements that are less than it and in
  front of the first one that is not, so elements that compare equal keep their order.
\<close>

fun insertStable :: "('a \<Rightarrow> 'a \<Rightarrow> bool) \<Rightarrow> 'a \<Rightarrow> 'a list \<Rightarrow> 'a list" where
  "insertStable lessFn x [] = [x]"
| "insertStable lessFn x (y # ys) =
     (if lessFn y x then y # insertStable lessFn x ys else x # y # ys)"

definition SliceStable :: "('a \<Rightarrow> 'a \<Rightarrow> bool) \<Rightarrow> 'a list \<Rightarrow> 'a list" where
  "SliceStable lessFn xs = foldr (insertStable lessFn) xs []"

text \<open>
  The comparison of the second sort: \<open>After\<close> on the completion times. The list it sorts
  holds completed task runs only, so the nil cases are never reached.
\<close>

definition completedAfter :: "TaskRun \<Rightarrow> TaskRun \<Rightarrow> bool" where
  "completedAfter x y =
     (case (tr_CompletionTime x, tr_CompletionTime y) of
        (Some a, Some b) \<Rightarrow> After a b
      | _ \<Rightarrow> False)"

definition createdBefore :: "TaskRun \<Rightarrow> TaskRun \<Rightarrow> bool" where
  "createdBefore x y = Before (tr_CreationTimestamp x) (tr_CreationTimestamp y)"

text \<open>
  The fetch loop of \<open>sortTaskRunsForGapCalculations\<close>: \<open>None\<close> is the early return on a
  failed \<open>Get\<close>, whatever the error.
\<close>

fun fetchKids ::
  "Client \<Rightarrow> string \<Rightarrow> ChildStatusReference list \<Rightarrow> TaskRun list \<Rightarrow> TaskRun list \<Rightarrow>
   (TaskRun list \<times> TaskRun list) option" where
  "fetchKids oc ns [] byCreate byCompletion = Some (byCreate, byCompletion)"
| "fetchKids oc ns (kidRef # rest) byCreate byCompletion =
     (if ref_Kind kidRef \<noteq> ''TaskRun'' then fetchKids oc ns rest byCreate byCompletion
      else
        (case getTaskRun oc ns (ref_Name kidRef) of
           Inl err \<Rightarrow> None
         | Inr kid \<Rightarrow>
             fetchKids oc ns rest (byCreate @ [kid])
               (if tr_CompletionTime kid \<noteq> None then byCompletion @ [kid] else byCompletion)))"

text \<open>The result is (sorted by creation, sorted by completion in reverse, abort).\<close>

definition sortTaskRunsForGapCalculations ::
  "Client \<Rightarrow> PipelineRun \<Rightarrow> TaskRun list \<times> TaskRun list \<times> bool" where
  "sortTaskRunsForGapCalculations oc pr =
     (case fetchKids oc (pr_Namespace pr) (pr_ChildReferences pr) [] [] of
        None \<Rightarrow> ([], [], True)
      | Some (byCreate, byCompletion) \<Rightarrow>
          (SliceStable createdBefore byCreate, SliceStable completedAfter byCompletion, False))"

subsection \<open>The gaps\<close>

text \<open>
  \<open>gap\<close> is a float64 in the source, converted from the int64 of \<open>Milliseconds\<close>; the
  conversion is exact (the value is below \<open>2^53\<close> in magnitude), so the field is the integer.
\<close>

record GapEntry =
  ge_status :: string
  ge_pipeline :: string
  ge_completed :: string
  ge_upcoming :: string
  ge_gap :: int

text \<open>
  The predecessor a task run starts from, as (completedID, timeToCalculateWith): first
  the default (the last task run of the list sorted by completion in reverse, or the
  pipeline run when that list is empty), then the scan of that list.
\<close>

definition defaultPredecessor ::
  "Platform \<Rightarrow> PipelineRun \<Rightarrow> TaskRun list \<Rightarrow> GoPanic + (string \<times> Time)" where
  "defaultPredecessor rt pr byCompletion =
     (if length byCompletion > 0
      then (let trToCalculateWith = last byCompletion
            in case tr_CompletionTime trToCalculateWith of
                 None \<Rightarrow> Inl NilPointerDereference
               | Some ct \<Rightarrow> Inr (taskRef (tr_Labels trToCalculateWith), ct))
      else Inr (pipelineRunPipelineRef rt pr, pr_CreationTimestamp pr))"

fun scanCandidates ::
  "TaskRun \<Rightarrow> TaskRun list \<Rightarrow> string \<times> Time \<Rightarrow> GoPanic + (string \<times> Time)" where
  "scanCandidates tr [] chosen = Inr chosen"
| "scanCandidates tr (tr2 # rest) chosen =
     (if tr_Name tr2 = tr_Name tr then scanCandidates tr rest chosen
      else
        (case tr_CompletionTime tr2 of
           None \<Rightarrow> Inl NilPointerDereference
         | Some ct \<Rightarrow>
             if \<not> After ct (tr_CreationTimestamp tr) then Inr (taskRef (tr_Labels tr2), ct)
             else scanCandidates tr rest chosen))"

text \<open>
  One pass of the loop of \<open>calculateGaps\<close>, for the task run \<open>tr\<close> at \<open>index\<close>:
  \<open>Inr None\<close> is a \<open>continue\<close> that appends nothing.
\<close>

definition gapEntryAt ::
  "Platform \<Rightarrow> PipelineRun \<Rightarrow> TaskRun list \<Rightarrow> TaskRun list \<Rightarrow> nat \<Rightarrow> TaskRun \<Rightarrow>
   GoPanic + GapEntry option" where
  "gapEntryAt rt pr byCreate byCompletion index tr =
     (let succeedCondition = GetCondition ConditionSucceeded (pr_Conditions pr);
          prRef = pipelineRunPipelineRef rt pr
      in if succeedCondition = None then Inr None
         else if IsUnknown succeedCondition then Inr None
         else
           (let status = (if IsFalse succeedCondition then FAILED else SUCCEEDED)
            in if index = 0
               then Inr (Some \<lparr>ge_status = status, ge_pipeline = prRef, ge_completed = prRef,
                      ge_upcoming = taskRef (tr_Labels tr),
                      ge_gap = Milliseconds (Sub (tr_CreationTimestamp tr) (pr_CreationTimestamp pr))\<rparr>)
               else
                 (case byCreate of
                    [] \<Rightarrow> Inl IndexOutOfRange
                  | firstKid # others \<Rightarrow>
                      if (case tr_CompletionTime firstKid of
                            None \<Rightarrow> False
                          | Some ct \<Rightarrow> After ct (tr_CreationTimestamp tr))
                      then Inr (Some \<lparr>ge_status = status, ge_pipeline = prRef, ge_completed = prRef,
                             ge_upcoming = taskRef (tr_Labels tr),
                             ge_gap = Milliseconds (Sub (tr_CreationTimestamp tr) (pr_CreationTimestamp pr))\<rparr>)
                      else
                        (case defaultPredecessor rt pr byCompletion of
                           Inl p \<Rightarrow> Inl p
                         | Inr chosen \<Rightarrow>
                             (case scanCandidates tr byCompletion chosen of
                                Inl p \<Rightarrow> Inl p
                              | Inr (completedID, timeToCalculateWith) \<Rightarrow>
                                  Inr (Some \<lparr>ge_status = status, ge_pipeline = prRef,
                                    ge_completed = completedID,
                                    ge_upcoming = taskRef (tr_Labels tr),
                                    ge_gap = Milliseconds (Sub (tr_CreationTimestamp tr) timeToCalculateWith)\<rparr>))))))"

fun calculateGapsLoop ::
  "Platform \<Rightarrow> PipelineRun \<Rightarrow> TaskRun list \<Rightarrow> TaskRun list \<Rightarrow> nat \<Rightarrow> TaskRun list \<Rightarrow>
   GapEntry list \<Rightarrow> GoPanic + GapEntry list" where
  "calculateGapsLoop rt pr byCreate byCompletion index [] gapEntries = Inr gapEntries"
| "calculateGapsLoop rt pr byCreate byCompletion index (tr # rest) gapEntries =
     (case gapEntryAt rt pr byCreate byCompletion index tr of
        Inl p \<Rightarrow> Inl p
      | Inr None \<Rightarrow> calculateGapsLoop rt pr byCreate byCompletion (Suc index) rest gapEntries
      | Inr (Some gapEntry) \<Rightarrow>
          calculateGapsLoop rt pr byCreate byCompletion (Suc index) rest (gapEntries @ [gapEntry]))"

definition calculateGaps ::
  "Platform \<Rightarrow> PipelineRun \<Rightarrow> TaskRun list \<Rightarrow> TaskRun list \<Rightarrow> GoPanic + GapEntry list" where
  "calculateGaps rt pr sortedTaskRunsByCreateTimes reverseOrderSortedTaskRunsByCompletionTimes =
     calculateGapsLoop rt pr sortedTaskRunsByCreateTimes
       reverseOrderSortedTaskRunsByCompletionTimes 0 sortedTaskRunsByCreateTimes []"

text \<open>
  \<open>accumulateGaps\<close>: (gapTotal, gapEntries, foundGaps). The total is a float64 sum of
  integer values, exact while it stays below \<open>2^53\<close>; it is the integer sum here.
\<close>

definition accumulateGaps ::
  "Platform \<Rightarrow> Client \<Rightarrow> PipelineRun \<Rightarrow> GoPanic + (int \<times> GapEntry list \<times> bool)" where
  "accumulateGaps rt oc pr =
     (if skipPipelineRun pr then Inr (0, [], False)
      else
        (case sortTaskRunsForGapCalculations oc pr of
           (byCreate, byCompletion, abort) \<Rightarrow>
             if abort then Inr (0, [], False)
             else
               (case calculateGaps rt pr byCreate byCompletion of
                  Inl p \<Rightarrow> Inl p
                | Inr gapEntries \<Rightarrow>
                    Inr (foldl (\<lambda>gapTotal gapEntry. gapTotal + ge_gap gapEntry) 0 gapEntries,
                         gapEntries, \<not> abort))))"

subsection \<open>The noise filter\<close>

definition threshold :: "Platform \<Rightarrow> float64" where
  "threshold rt =
     (let thresholdStr = Getenv rt FILTER_THRESHOLD
      in if length thresholdStr > 0
         then (case ParseFloat rt thresholdStr of
                 None \<Rightarrow> DEFAULT_THRESHOLD
               | Some thresholdOverride \<Rightarrow> thresholdOverride)
         else DEFAULT_THRESHOLD)"

text \<open>The function \<open>filter\<close> of the source.\<close>

definition filter_overhead :: "Platform \<Rightarrow> float64 \<Rightarrow> float64 \<Rightarrow> bool" where
  "filter_overhead rt numerator denominator =
     (if f64_less (Fin 0) numerator \<and> f64_less denominator (threshold rt) then True else False)"

subsection \<open>The overhead reconciler\<close>

text \<open>
  An observation of a histogram: its labels, and the two float64 values whose quotient
  is observed (the rounding of the division is not modelled).
\<close>

record Observation =
  obs_namespace :: string
  obs_status :: string
  obs_numerator :: int
  obs_denominator :: int

text \<open>
  What one \<open>ReconcileOverhead\<close> does: the \<open>reconcile.Result\<close> and error it returns, the
  observations of the execution and the scheduling histogram, and the pipeline runs it
  handed to \<open>Patch\<close>.
\<close>

record ReconcileOutcome =
  res_Requeue :: bool
  res_err :: "ApiError option"
  res_execution :: "Observation list"
  res_scheduling :: "Observation list"
  res_patched :: "PipelineRun list"

text \<open>The return \<open>reconcile.Result{}, nil\<close> with nothing observed and nothing patched.\<close>

definition nothingDone :: ReconcileOutcome where
  "nothingDone =
     \<lparr>res_Requeue = False, res_err = None, res_execution = [], res_scheduling = [],
      res_patched = []\<rparr>"

text \<open>
  One of the two blocks of \<open>ReconcileOverhead\<close> that observe \<open>gap / totalDuration\<close>
  unless \<open>filter\<close> suppresses it: the observations the block makes.
\<close>

definition recordOverhead :: "Platform \<Rightarrow> PipelineRun \<Rightarrow> string \<Rightarrow> int \<Rightarrow> int \<Rightarrow> Observation list" where
  "recordOverhead rt pr status gap totalDuration =
     (if \<not> filter_overhead rt (Fin (of_int gap)) (Fin (of_int totalDuration))
      then [\<lparr>obs_namespace = pr_Namespace pr, obs_status = status,
             obs_numerator = gap, obs_denominator = totalDuration\<rparr>]
      else [])"

definition ReconcileOverhead ::
  "Platform \<Rightarrow> Client \<Rightarrow> string \<Rightarrow> string \<Rightarrow> GoPanic + ReconcileOutcome" where
  "ReconcileOverhead rt oc namespace name =
     (case getPipelineRun oc namespace name of
        Inl err \<Rightarrow>
          if \<not> IsNotFound err then Inr (nothingDone\<lparr>res_err := Some err\<rparr>)
          else Inr nothingDone
      | Inr pr \<Rightarrow>
          (let succeedCondition = GetCondition ConditionSucceeded (pr_Conditions pr)
           in if succeedCondition \<noteq> None \<and> \<not> IsUnknown succeedCondition
              then
                (case accumulateGaps rt oc pr of
                   Inl p \<Rightarrow> Inl p
                 | Inr (gapTotal, gapEntries, foundGaps) \<Rightarrow>
                     if foundGaps
                     then
                       (let status = (if IsFalse succeedCondition then FAILED else SUCCEEDED)
                        in case pr_CompletionTime pr of
                             None \<Rightarrow> Inl NilPointerDereference
                           | Some completionTime \<Rightarrow>
                               (case pr_StartTime pr of
                                  None \<Rightarrow> Inl NilPointerDereference
                                | Some startTime \<Rightarrow>
                                    (let totalDuration = Milliseconds (Sub completionTime startTime);
                                         scheduleDuration =
                                           calculateScheduledDuration (pr_CreationTimestamp pr) startTime
                                     in Inr (nothingDone
                                          \<lparr>res_execution := recordOverhead rt pr status gapTotal totalDuration,
                                           res_scheduling :=
                                             recordOverhead rt pr status scheduleDuration totalDuration\<rparr>))))
                     else Inr nothingDone)
              else if \<not> isPipelineRunGoing (pr_ChildReferences pr)
                then Inr (nothingDone\<lparr>res_Requeue := True\<rparr>)
                else
                  (case tagPipelineRunsWithTaskRunsGettingThrottled oc pr of
                     (err, patched) \<Rightarrow> Inr (nothingDone\<lparr>res_err := err, res_patched := patched\<rparr>))))"

text \<open>
  \<open>calculateScheduledDurationPipelineRun\<close>, in seconds (the rounding of the float64
  division by 1000 is not modelled).
\<close>

definition calculateScheduledDurationPipelineRun :: "PipelineRun \<Rightarrow> GoPanic + real" where
  "calculateScheduledDurationPipelineRun pipelineRun =
     (case pr_StartTime pipelineRun of
        None \<Rightarrow> Inl NilPointerDereference
      | Some startTime \<Rightarrow>
          Inr (of_int (calculateScheduledDuration (pr_CreationTimestamp pipelineRun) startTime) / 1000))"

subsection \<open>The deadlock tracker\<close>

text \<open>
  The \<open>PollCollector\<close> of a tracker is an interface whose implementations are not part
  of these files: the model keeps the calls made to it, in order.
\<close>

datatype CollectorCall = IncCollector string | ZeroCollector string

text \<open>
  Modelled from the spec: the gauge a \<open>PollCollector\<close> exports is missing from the
  sources. It is a per-namespace "stuck" counter that \<open>IncCollector\<close> increments by one
  and \<open>ZeroCollector\<close> sets to zero; \<open>gauge calls ns\<close> is its value for \<open>ns\<close> after the
  calls, starting from zero.
\<close>

fun applyCall :: "(string \<Rightarrow> nat) \<Rightarrow> CollectorCall \<Rightarrow> (string \<Rightarrow> nat)" where
  "applyCall g (IncCollector ns) = g(ns := Suc (g ns))"
| "applyCall g (ZeroCollector ns) = g(ns := 0)"

definition gauge :: "CollectorCall list \<Rightarrow> string \<Rightarrow> nat" where
  "gauge calls = foldl applyCall (\<lambda>ns. 0) calls"

text \<open>
  A \<open>map[string]struct{}\<close> is the list of its keys, a
  \<open>map[string]map[string]struct{}\<close> an association list from a namespace to the list of
  the names recorded for it.
\<close>

type_synonym ScanMap = "(string \<times> string list) list"

text \<open>
  The tracker. Its field \<open>filter\<close> is \<open>dt_filter\<close>; its field \<open>deadlocked\<close>, a function
  of no argument, is the boolean it returns at a poll, an argument of
  \<open>PerformDeadlockDetection\<close>.
\<close>

record DeadlockTracker =
  dt_collector :: "CollectorCall list"
  dt_filter :: "string list"
  dt_flaggedNamespaces :: "string list"
  dt_lastScan :: ScanMap
  dt_currentScan :: ScanMap

definition lookupScan :: "ScanMap \<Rightarrow> string \<Rightarrow> string list" where
  "lookupScan m ns = (case map_of m ns of None \<Rightarrow> [] | Some objMap \<Rightarrow> objMap)"

definition PerformDeadlockDetection ::
  "DeadlockTracker \<Rightarrow> string \<Rightarrow> string \<Rightarrow> bool \<Rightarrow> DeadlockTracker" where
  "PerformDeadlockDetection d name ns deadlocked =
     (if ns \<in> set (dt_filter d) then d
      else
        (let objMap = lookupScan (dt_currentScan d) ns;
             d1 = (if map_of (dt_currentScan d) ns = None
                   then d\<lparr>dt_currentScan := AList.update ns objMap (dt_currentScan d)\<rparr>
                   else d);
             cacheCopyObjMap = lookupScan (dt_lastScan d1) ns;
             objHitLastTime = (name \<in> set cacheCopyObjMap);
             d2 = (if deadlocked
                   then
                     (let d' = d1\<lparr>dt_currentScan :=
                                   AList.update ns (List.insert name objMap) (dt_currentScan d1)\<rparr>
                      in if objHitLastTime
                         then d'\<lparr>dt_collector := dt_collector d' @ [IncCollector ns],
                                 dt_flaggedNamespaces := List.insert ns (dt_flaggedNamespaces d')\<rparr>
                         else d')
                   else d1)
         in if ns \<in> set (dt_flaggedNamespaces d2) then d2
            else d2\<lparr>dt_collector := dt_collector d2 @ [ZeroCollector ns]\<rparr>))"

text \<open>
  \<open>buildLastScanCopy\<close>. The helper \<open>innerReset\<close> it calls first is not part of these
  files; it is a parameter, from the collector's calls so far and the keys to the calls
  after it. The result is the collector's calls and the copy.
\<close>

definition copyObjMap :: "string list \<Rightarrow> string list" where
  "copyObjMap trMap = fold (\<lambda>tr newPrMap. List.insert tr newPrMap) trMap []"

definition buildLastScanCopy ::
  "(CollectorCall list \<Rightarrow> string list \<Rightarrow> CollectorCall list) \<Rightarrow> CollectorCall list \<Rightarrow> ScanMap \<Rightarrow>
   CollectorCall list \<times> ScanMap" where
  "buildLastScanCopy innerReset collector m =
     (let keys = map fst m;
          collector' = innerReset collector keys;
          cacheCopy = fold (\<lambda>(ns, trMap) cacheCopy. AList.update ns (copyObjMap trMap) cacheCopy) m []
      in (collector', cacheCopy))"

fun zeroOutPriorHitNamespacesThatAreNowEmpty ::
  "CollectorCall list \<Rightarrow> ScanMap \<Rightarrow> ScanMap \<Rightarrow> CollectorCall list" where
  "zeroOutPriorHitNamespacesThatAreNowEmpty collector [] currentScan = collector"
| "zeroOutPriorHitNamespacesThatAreNowEmpty collector ((ns, objMap) # lastScan) currentScan =
     (if map_of currentScan ns = None
      then zeroOutPriorHitNamespacesThatAreNowEmpty (collector @ [ZeroCollector ns]) lastScan currentScan
      else zeroOutPriorHitNamespacesThatAreNowEmpty collector lastScan currentScan)"

text \<open>
  Modelled from the spec: the polling loop that owns a tracker, and with it whatever
  removes a namespace from \<open>flaggedNamespaces\<close>, is missing from the sources (no function
  of these files deletes from that map). The spec's end of a cycle: the previous scan
  becomes a deep copy of the current scan, and the namespaces of the previous scan with
  no entry in the current scan are dropped from tracking, their flagged marker and their
  gauge cleared. The copy and the zeroing of the gauge are the source's
  \<open>buildLastScanCopy\<close> and \<open>zeroOutPriorHitNamespacesThatAreNowEmpty\<close>; the clearing of the
  marker follows the spec's words.
\<close>

definition endOfCycle ::
  "(CollectorCall list \<Rightarrow> string list \<Rightarrow> CollectorCall list) \<Rightarrow> DeadlockTracker \<Rightarrow> DeadlockTracker" where
  "endOfCycle innerReset d =
     (case buildLastScanCopy innerReset (dt_collector d) (dt_currentScan d) of
        (collector', cacheCopy) \<Rightarrow>
          d\<lparr>dt_collector :=
              zeroOutPriorHitNamespacesThatAreNowEmpty collector' (dt_lastScan d) (dt_currentScan d),
            dt_flaggedNamespaces :=
              filter (\<lambda>ns. map_of (dt_currentScan d) ns \<noteq> None) (dt_flaggedNamespaces d),
            dt_lastScan := cacheCopy\<rparr>)"

text \<open>
  Modelled from the spec: the polling loop is missing from the sources, and with it how
  a cycle starts. In the spec the current scan holds the identities seen as failing in
  the current scan, and a namespace counts as flagged when it was flagged by a prior
  poll of this cycle: a cycle starts with an empty current scan and with no namespace
  flagged. The previous scan is the one the end of the last cycle left.
\<close>

definition startOfCycle :: "DeadlockTracker \<Rightarrow> DeadlockTracker" where
  "startOfCycle d = d\<lparr>dt_flaggedNamespaces := [], dt_currentScan := []\<rparr>"

text \<open>
  The polls of one cycle, in order: each is the name and the namespace of the object
  polled and what the liveness predicate answers for it, handed to the source's
  \<open>PerformDeadlockDetection\<close>.
\<close>

fun pollAll :: "DeadlockTracker \<Rightarrow> (string \<times> string \<times> bool) list \<Rightarrow> DeadlockTracker" where
  "pollAll d [] = d"
| "pollAll d ((name, ns, deadlocked) # polls) =
     pollAll (PerformDeadlockDetection d name ns deadlocked) polls"

text \<open>
  Modelled from the spec: one polling cycle, from its start through its polls to its
  end.
\<close>

definition pollingCycle ::
  "(CollectorCall list \<Rightarrow> string list \<Rightarrow> CollectorCall list) \<Rightarrow> DeadlockTracker \<Rightarrow>
   (string \<times> string \<times> bool) list \<Rightarrow> DeadlockTracker" where
  "pollingCycle innerReset d polls = endOfCycle innerReset (pollAll (startOfCycle d) polls)"

section \<open>Predicates of the statements\<close>

text \<open>
  A child reference at which the scan of \<open>isPipelineRunThrottled\<close> goes on to the next
  one: it is not a task run, or its task run is not found, or is found and not throttled.
\<close>

definition scanContinues :: "Client \<Rightarrow> string \<Rightarrow> ChildStatusReference \<Rightarrow> bool" where
  "scanContinues oc ns kidRef =
     (ref_Kind kidRef \<noteq> ''TaskRun'' \<or>
      (case getTaskRun oc ns (ref_Name kidRef) of
         Inl err \<Rightarrow> IsNotFound err
       | Inr kid \<Rightarrow> \<not> isTaskRunThrottled kid))"

text \<open>
  A run is done when its Succeeded condition exists and is not Unknown: the case in
  which \<open>ReconcileOverhead\<close> computes gaps.
\<close>

definition runDone :: "PipelineRun \<Rightarrow> bool" where
  "runDone pr =
     (GetCondition ConditionSucceeded (pr_Conditions pr) \<noteq> None \<and>
      \<not> IsUnknown (GetCondition ConditionSucceeded (pr_Conditions pr)))"

text \<open>A task run with a completion time.\<close>

definition completed :: "TaskRun \<Rightarrow> bool" where
  "completed tr = (tr_CompletionTime tr \<noteq> None)"

text \<open>The key of the second sort: the completion time, negated.\<close>

definition negCompletion :: "TaskRun \<Rightarrow> int" where
  "negCompletion tr = (case tr_CompletionTime tr of None \<Rightarrow> 0 | Some t \<Rightarrow> - t)"

text \<open>
  \<open>candidate tr q u\<close>: the task run \<open>q\<close> is another task run than \<open>tr\<close> (by name)
  and completed at \<open>u\<close>, not after \<open>tr\<close> was created.
\<close>

definition candidate :: "TaskRun \<Rightarrow> TaskRun \<Rightarrow> Time \<Rightarrow> bool" where
  "candidate tr q u =
     (tr_Name q \<noteq> tr_Name tr \<and> tr_CompletionTime q = Some u \<and> \<not> After u (tr_CreationTimestamp tr))"

text \<open>The status label of a done run's gap entries.\<close>

definition runStatus :: "PipelineRun \<Rightarrow> string" where
  "runStatus pr =
     (if IsFalse (GetCondition ConditionSucceeded (pr_Conditions pr)) then FAILED else SUCCEEDED)"

text \<open>The number of \<open>IncCollector\<close> calls for a namespace among the calls made.\<close>

definition incCalls :: "string \<Rightarrow> CollectorCall list \<Rightarrow> nat" where
  "incCalls ns calls = length (filter (\<lambda>call. call = IncCollector ns) calls)"

text \<open>
  The polls of \<open>polls2\<close> that find an identity of the namespace \<open>ns\<close> failing which a
  poll of \<open>polls1\<close> found failing too.
\<close>

definition stuckPolls ::
  "string \<Rightarrow> (string \<times> string \<times> bool) list \<Rightarrow> (string \<times> string \<times> bool) list \<Rightarrow>
   (string \<times> string \<times> bool) list" where
  "stuckPolls ns polls1 polls2 =
     filter (\<lambda>(name, s, deadlocked). s = ns \<and> deadlocked \<and> (name, ns, True) \<in> set polls1) polls2"

section \<open>Example inputs\<close>

text \<open>
  The inputs the statements below are evaluated at. Times are in nanoseconds.
\<close>

text \<open>
  A platform without a threshold override; a run of the namespace \<open>ns\<close> with the
  given child references, and a task run reference.
\<close>

definition ex_rt :: Platform where
  "ex_rt = \<lparr>TrimSpace = (\<lambda>s. s), Getenv = (\<lambda>k. []), ParseFloat = (\<lambda>s. None)\<rparr>"

definition ex_run :: "ChildStatusReference list \<Rightarrow> PipelineRun" where
  "ex_run refs =
     \<lparr>pr_Namespace = ''ns'', pr_Name = ''run'', pr_GenerateName = [], pr_Labels = Map.empty,
      pr_CreationTimestamp = 0, pr_PipelineRef = None, pr_Conditions = [],
      pr_StartTime = None, pr_CompletionTime = None, pr_ChildReferences = refs\<rparr>"

definition ex_ref :: "string \<Rightarrow> ChildStatusReference" where
  "ex_ref name = \<lparr>ref_Kind = ''TaskRun'', ref_Name = name\<rparr>"

text \<open>
  A task run throttled on quota, a client that does not find \<open>gone\<close>, finds that task
  run as \<open>build\<close> and times out on any other name, and a run that carries the
  throttle label.
\<close>

definition ex_quotaKid :: TaskRun where
  "ex_quotaKid =
     \<lparr>tr_Name = ''build'', tr_Labels = Map.empty, tr_CreationTimestamp = 0,
      tr_CompletionTime = None,
      tr_Conditions = [\<lparr>cond_Type = ''Succeeded'', cond_Status = ''Unknown'',
                        cond_Reason = ''ExceededResourceQuota''\<rparr>]\<rparr>"

definition ex_throttleClient :: Client where
  "ex_throttleClient =
     \<lparr>getTaskRun = (\<lambda>ns name. if name = ''gone'' then Inl NotFound
                               else if name = ''build'' then Inr ex_quotaKid
                               else Inl (OtherError ''timeout'')),
      getPipelineRun = (\<lambda>ns name. Inl NotFound),
      patchPipelineRun = (\<lambda>changed base. None)\<rparr>"

definition ex_labelled :: PipelineRun where
  "ex_labelled = (ex_run [ex_ref ''build''])\<lparr>pr_Labels := [THROTTLED_LABEL \<mapsto> ''build'']\<rparr>"

text \<open>
  A task run named \<open>name\<close> with its name as its task label; a client that serves the
  given task runs by name and the given pipeline run; a done, successful run created
  half a second after the epoch, started at one second and completed at 400 seconds,
  with one task run reference per name.
\<close>

definition ex_kid :: "string \<Rightarrow> Time \<Rightarrow> Time option \<Rightarrow> TaskRun" where
  "ex_kid name created completion =
     \<lparr>tr_Name = name, tr_Labels = [TaskLabelKey \<mapsto> name], tr_CreationTimestamp = created,
      tr_CompletionTime = completion, tr_Conditions = []\<rparr>"

fun ex_lookup :: "TaskRun list \<Rightarrow> string \<Rightarrow> ApiError + TaskRun" where
  "ex_lookup [] name = Inl NotFound"
| "ex_lookup (k # ks) name = (if tr_Name k = name then Inr k else ex_lookup ks name)"

definition ex_client :: "TaskRun list \<Rightarrow> PipelineRun \<Rightarrow> Client" where
  "ex_client kids run =
     \<lparr>getTaskRun = (\<lambda>ns name. ex_lookup kids name),
      getPipelineRun = (\<lambda>ns name. if name = pr_Name run then Inr run else Inl NotFound),
      patchPipelineRun = (\<lambda>changed base. None)\<rparr>"

definition ex_doneRun :: "string list \<Rightarrow> PipelineRun" where
  "ex_doneRun names =
     (ex_run (map ex_ref names))
       \<lparr>pr_CreationTimestamp := 500000000,
        pr_Conditions := [\<lparr>cond_Type = ''Succeeded'', cond_Status = ''True'', cond_Reason = []\<rparr>],
        pr_StartTime := Some 1000000000,
        pr_CompletionTime := Some 400000000000\<rparr>"

text \<open>
  The task runs \<open>p\<close>, \<open>q\<close> and \<open>r\<close>: \<open>q\<close> starts while \<open>p\<close> runs, \<open>r\<close> after both
  have completed.
\<close>

definition ex_p :: TaskRun where
  "ex_p = ex_kid ''p'' 1000000000 (Some 10000000000)"

definition ex_q :: TaskRun where
  "ex_q = ex_kid ''q'' 2000000000 (Some 12000000000)"

definition ex_r :: TaskRun where
  "ex_r = ex_kid ''r'' 15000000000 (Some 20000000000)"

text \<open>
  The task runs \<open>a\<close> and \<open>d\<close>, which never complete, and \<open>b\<close> and \<open>c\<close>, which complete
  after all four were created.
\<close>

definition ex_a :: TaskRun where
  "ex_a = ex_kid ''a'' 1000000000 None"

definition ex_b :: TaskRun where
  "ex_b = ex_kid ''b'' 11000000000 (Some 51000000000)"

definition ex_c :: TaskRun where
  "ex_c = ex_kid ''c'' 21000000000 (Some 31000000000)"

definition ex_d :: TaskRun where
  "ex_d = ex_kid ''d'' 5000000000 None"

text \<open>A gap entry of the example runs.\<close>

definition ex_entry :: "string \<Rightarrow> string \<Rightarrow> int \<Rightarrow> GapEntry" where
  "ex_entry completedID upcoming gap =
     \<lparr>ge_status = ''succeded'', ge_pipeline = ''run'', ge_completed = completedID,
      ge_upcoming = upcoming, ge_gap = gap\<rparr>"

text \<open>A client whose fetch of any task run fails with the given error.\<close>

definition ex_failingClient :: "ApiError \<Rightarrow> PipelineRun \<Rightarrow> Client" where
  "ex_failingClient err run =
     \<lparr>getTaskRun = (\<lambda>ns name. Inl err),
      getPipelineRun = (\<lambda>ns name. if name = pr_Name run then Inr run else Inl NotFound),
      patchPipelineRun = (\<lambda>changed base. None)\<rparr>"

text \<open>
  A tracker that filters the namespace \<open>kube-system\<close>, with the given previous scan,
  current scan, flagged namespaces and calls made so far.
\<close>

definition ex_tracker ::
  "ScanMap \<Rightarrow> ScanMap \<Rightarrow> string list \<Rightarrow> CollectorCall list \<Rightarrow> DeadlockTracker" where
  "ex_tracker lastScan currentScan flagged calls =
     \<lparr>dt_collector = calls, dt_filter = [''kube-system''], dt_flaggedNamespaces = flagged,
      dt_lastScan = lastScan, dt_currentScan = currentScan\<rparr>"

text \<open>The definitions unfolded when a statement is evaluated at an example.\<close>

lemmas ex_defs = ex_kid_def ex_client_def ex_doneRun_def ex_run_def ex_ref_def ex_rt_def
  ex_p_def

lemmas ex_pqr_defs = ex_q_def ex_r_def

lemmas ex_abcd_defs = ex_a_def ex_b_def ex_c_def ex_d_def

lemmas eval_defs = runDone_def IsUnknown_def IsFalse_def ConditionSucceeded_def
  ConditionUnknown_def ConditionFalse_def THROTTLED_LABEL_def Sub_def Milliseconds_def
  maxDuration_def minDuration_def pipelineRunPipelineRef_def taskRef_def label_def
  TaskLabelKey_def PipelineTaskLabelKey_def ClusterTaskLabelKey_def TaskRunLabelKey_def
  After_def Before_def

lemmas gap_defs = calculateGaps_def gapEntryAt_def defaultPredecessor_def Let_def SUCCEEDED_def
  FAILED_def

lemmas sort_defs = sortTaskRunsForGapCalculations_def SliceStable_def createdBefore_def
  completedAfter_def

lemmas tracker_defs = ex_tracker_def PerformDeadlockDetection_def lookupScan_def Let_def

section \<open>The throttle detector\<close>

lemma zeroTaskRun_not_throttled: "\<not> isTaskRunThrottled zeroTaskRun"
  by (simp add: isTaskRunThrottled_def zeroTaskRun_def)

lemma throttledLoop_skip:
  "\<forall>x \<in> set pre. scanContinues oc ns x \<Longrightarrow>
   throttledLoop oc ns (pre @ rest) = throttledLoop oc ns rest"
proof (induction pre)
  case Nil
  then show ?case by simp
next
  case (Cons x pre)
  then show ?case
    by (auto simp: scanContinues_def zeroTaskRun_not_throttled split: sum.splits)
qed

lemma isTaskRunThrottled_iff:
  "isTaskRunThrottled tr \<longleftrightarrow>
     (\<exists>c. GetCondition ConditionSucceeded (tr_Conditions tr) = Some c \<and>
          cond_Status c = ConditionUnknown \<and>
          (cond_Reason c = ReasonExceededResourceQuota \<or> cond_Reason c = ReasonExceededNodeResources))"
  by (auto simp: isTaskRunThrottled_def split: option.splits)

text \<open>
  Claim C9. A task run is throttled exactly when its Succeeded condition exists, has
  status Unknown and has the reason ExceededResourceQuota or ExceededNodeResources. The
  scan of a run's child references passes over the references that are not task runs,
  the task runs that are not found and those that are not throttled; it answers
  (false, "", nil) when it passes over all of them, (true, the task run's name, nil) at
  the first throttled task run, and (false, "", err) at the first fetch that fails with
  an error other than not-found.
\<close>

theorem throttle_detector:
  "(isTaskRunThrottled tr \<longleftrightarrow>
     (\<exists>c. GetCondition ConditionSucceeded (tr_Conditions tr) = Some c \<and>
          cond_Status c = ConditionUnknown \<and>
          (cond_Reason c = ReasonExceededResourceQuota \<or> cond_Reason c = ReasonExceededNodeResources)))
   \<and> ((\<forall>x \<in> set (pr_ChildReferences pr). scanContinues oc (pr_Namespace pr) x) \<longrightarrow>
        isPipelineRunThrottled oc pr = (False, [], None))
   \<and> (\<forall>pre kidRef rest kid.
        pr_ChildReferences pr = pre @ kidRef # rest \<and>
        (\<forall>x \<in> set pre. scanContinues oc (pr_Namespace pr) x) \<and>
        ref_Kind kidRef = ''TaskRun'' \<and>
        getTaskRun oc (pr_Namespace pr) (ref_Name kidRef) = Inr kid \<and> isTaskRunThrottled kid \<longrightarrow>
        isPipelineRunThrottled oc pr = (True, tr_Name kid, None))
   \<and> (\<forall>pre kidRef rest err.
        pr_ChildReferences pr = pre @ kidRef # rest \<and>
        (\<forall>x \<in> set pre. scanContinues oc (pr_Namespace pr) x) \<and>
        ref_Kind kidRef = ''TaskRun'' \<and>
        getTaskRun oc (pr_Namespace pr) (ref_Name kidRef) = Inl err \<and> \<not> IsNotFound err \<longrightarrow>
        isPipelineRunThrottled oc pr = (False, [], Some err))"
proof (intro conjI allI impI)
  show "isTaskRunThrottled tr \<longleftrightarrow>
     (\<exists>c. GetCondition ConditionSucceeded (tr_Conditions tr) = Some c \<and>
          cond_Status c = ConditionUnknown \<and>
          (cond_Reason c = ReasonExceededResourceQuota \<or> cond_Reason c = ReasonExceededNodeResources))"
    by (rule isTaskRunThrottled_iff)
next
  assume "\<forall>x \<in> set (pr_ChildReferences pr). scanContinues oc (pr_Namespace pr) x"
  then have "throttledLoop oc (pr_Namespace pr) (pr_ChildReferences pr @ []) =
      throttledLoop oc (pr_Namespace pr) []"
    by (rule throttledLoop_skip)
  then show "isPipelineRunThrottled oc pr = (False, [], None)"
    by (simp add: isPipelineRunThrottled_def)
next
  fix pre kidRef rest kid
  assume a: "pr_ChildReferences pr = pre @ kidRef # rest \<and>
        (\<forall>x \<in> set pre. scanContinues oc (pr_Namespace pr) x) \<and>
        ref_Kind kidRef = ''TaskRun'' \<and>
        getTaskRun oc (pr_Namespace pr) (ref_Name kidRef) = Inr kid \<and> isTaskRunThrottled kid"
  then have "throttledLoop oc (pr_Namespace pr) (pre @ kidRef # rest) =
      throttledLoop oc (pr_Namespace pr) (kidRef # rest)"
    using throttledLoop_skip by blast
  with a show "isPipelineRunThrottled oc pr = (True, tr_Name kid, None)"
    by (simp add: isPipelineRunThrottled_def)
next
  fix pre kidRef rest err
  assume a: "pr_ChildReferences pr = pre @ kidRef # rest \<and>
        (\<forall>x \<in> set pre. scanContinues oc (pr_Namespace pr) x) \<and>
        ref_Kind kidRef = ''TaskRun'' \<and>
        getTaskRun oc (pr_Namespace pr) (ref_Name kidRef) = Inl err \<and> \<not> IsNotFound err"
  then have "throttledLoop oc (pr_Namespace pr) (pre @ kidRef # rest) =
      throttledLoop oc (pr_Namespace pr) (kidRef # rest)"
    using throttledLoop_skip by blast
  with a show "isPipelineRunThrottled oc pr = (False, [], Some err)"
    by (simp add: isPipelineRunThrottled_def)
qed

lemma ex_quotaKid_throttled: "isTaskRunThrottled ex_quotaKid"
  by (simp add: isTaskRunThrottled_def ex_quotaKid_def ConditionSucceeded_def
      ConditionUnknown_def ReasonExceededResourceQuota_def)

lemma ex_quotaKid_name: "tr_Name ex_quotaKid = ''build''"
  by (simp add: ex_quotaKid_def)

text \<open>
  The scan at three runs: a missing task run, then a throttled one; a missing one, then
  a fetch that times out; a missing one only.
\<close>

theorem throttle_detector_witness:
  "isTaskRunThrottled ex_quotaKid
   \<and> isPipelineRunThrottled ex_throttleClient (ex_run [ex_ref ''gone'', ex_ref ''build'', ex_ref ''late''])
       = (True, ''build'', None)
   \<and> isPipelineRunThrottled ex_throttleClient (ex_run [ex_ref ''gone'', ex_ref ''late'', ex_ref ''build''])
       = (False, [], Some (OtherError ''timeout''))
   \<and> isPipelineRunThrottled ex_throttleClient (ex_run [ex_ref ''gone''])
       = (False, [], None)"
proof -
  let ?oc = ex_throttleClient
  have c: "scanContinues ?oc ''ns'' (ex_ref ''gone'')"
    by (simp add: scanContinues_def ex_throttleClient_def ex_ref_def IsNotFound_def)
  note t = throttle_detector [of ex_quotaKid _ ?oc]
  have 1: "isPipelineRunThrottled ?oc (ex_run [ex_ref ''gone'', ex_ref ''build'', ex_ref ''late''])
       = (True, tr_Name ex_quotaKid, None)"
    using t [of "ex_run [ex_ref ''gone'', ex_ref ''build'', ex_ref ''late'']",
          THEN conjunct2, THEN conjunct2, THEN conjunct1, rule_format,
          of "[ex_ref ''gone'']" "ex_ref ''build''" "[ex_ref ''late'']" ex_quotaKid]
      c ex_quotaKid_throttled
    by (simp add: ex_run_def ex_ref_def ex_throttleClient_def)
  have 2: "isPipelineRunThrottled ?oc (ex_run [ex_ref ''gone'', ex_ref ''late'', ex_ref ''build''])
       = (False, [], Some (OtherError ''timeout''))"
    using t [of "ex_run [ex_ref ''gone'', ex_ref ''late'', ex_ref ''build'']",
          THEN conjunct2, THEN conjunct2, THEN conjunct2, rule_format,
          of "[ex_ref ''gone'']" "ex_ref ''late''" "[ex_ref ''build'']" "OtherError ''timeout''"]
      c
    by (simp add: ex_run_def ex_ref_def ex_throttleClient_def IsNotFound_def)
  have 3: "isPipelineRunThrottled ?oc (ex_run [ex_ref ''gone'']) = (False, [], None)"
    using t [of "ex_run [ex_ref ''gone'']", THEN conjunct2, THEN conjunct1] c
    by (simp add: ex_run_def)
  show ?thesis using 1 2 3 ex_quotaKid_throttled by (simp add: ex_quotaKid_name)
qed

section \<open>Throttle tagging\<close>

text \<open>
  Claim C7. Tagging a run that already carries the throttle label calls \<open>Patch\<close> not at
  all, so the label keeps its value. One call of the tagging makes at most one \<open>Patch\<close>
  call, and only for a run without the label: the patched run carries the label, with
  the name of the throttled task run as its value, and has its other labels unchanged;
  tagging the patched run again, with any client, makes no \<open>Patch\<close> call.
\<close>

theorem throttle_tagging_idempotent:
  "(pr_Labels pr THROTTLED_LABEL \<noteq> None \<longrightarrow>
      snd (tagPipelineRunsWithTaskRunsGettingThrottled oc pr) = [])
   \<and> length (snd (tagPipelineRunsWithTaskRunsGettingThrottled oc pr)) \<le> 1
   \<and> (\<forall>changedPR \<in> set (snd (tagPipelineRunsWithTaskRunsGettingThrottled oc pr)).
        pr_Labels pr THROTTLED_LABEL = None \<and>
        pr_Labels changedPR THROTTLED_LABEL = Some (fst (snd (isPipelineRunThrottled oc pr))) \<and>
        (\<forall>k. k \<noteq> THROTTLED_LABEL \<longrightarrow> pr_Labels changedPR k = pr_Labels pr k) \<and>
        snd (tagPipelineRunsWithTaskRunsGettingThrottled oc' changedPR) = [])"
  by (auto simp: tagPipelineRunsWithTaskRunsGettingThrottled_def Let_def
      split: prod.splits option.splits if_splits)

text \<open>A labelled run is not patched; the unlabelled run with a throttled task run is, once.\<close>

theorem throttle_tagging_idempotent_witness:
  "snd (tagPipelineRunsWithTaskRunsGettingThrottled ex_throttleClient ex_labelled) = []
   \<and> snd (tagPipelineRunsWithTaskRunsGettingThrottled ex_throttleClient (ex_run [ex_ref ''build'']))
       = [ex_labelled]
   \<and> pr_Labels ex_labelled THROTTLED_LABEL = Some ''build''"
proof -
  have 1: "snd (tagPipelineRunsWithTaskRunsGettingThrottled ex_throttleClient ex_labelled) = []"
    using throttle_tagging_idempotent [of ex_labelled ex_throttleClient ex_throttleClient]
    by (simp add: ex_labelled_def)
  have 2: "snd (tagPipelineRunsWithTaskRunsGettingThrottled ex_throttleClient (ex_run [ex_ref ''build'']))
       = [ex_labelled]"
    by (simp add: tagPipelineRunsWithTaskRunsGettingThrottled_def isPipelineRunThrottled_def
        ex_run_def ex_ref_def ex_throttleClient_def ex_quotaKid_throttled ex_quotaKid_name
        ex_labelled_def)
  show ?thesis using 1 2 by (simp add: ex_labelled_def)
qed

section \<open>The two sorts\<close>

lemma set_insertStable: "set (insertStable lt x ys) = insert x (set ys)"
  by (induction ys) auto

lemma length_insertStable: "length (insertStable lt x ys) = Suc (length ys)"
  by (induction ys) auto

lemma set_SliceStable: "set (SliceStable lt xs) = set xs"
  by (induction xs) (auto simp: SliceStable_def set_insertStable)

lemma length_SliceStable: "length (SliceStable lt xs) = length xs"
  by (induction xs) (auto simp: SliceStable_def length_insertStable)

lemma sorted_insertStable:
  fixes f :: "'a \<Rightarrow> int"
  assumes "\<forall>u \<in> insert x (set ys). \<forall>v \<in> insert x (set ys). lt u v = (f u < f v)"
    and "sorted_wrt (\<lambda>a b. f a \<le> f b) ys"
  shows "sorted_wrt (\<lambda>a b. f a \<le> f b) (insertStable lt x ys)"
  using assms
proof (induction ys)
  case Nil
  then show ?case by simp
next
  case (Cons y ys)
  show ?case
  proof (cases "lt y x")
    case True
    then have "f y < f x" using Cons.prems(1) by simp
    moreover have "sorted_wrt (\<lambda>a b. f a \<le> f b) (insertStable lt x ys)"
      using Cons by simp
    ultimately show ?thesis
      using True Cons.prems(2) by (auto simp: set_insertStable)
  next
    case False
    then have "f x \<le> f y" using Cons.prems(1) by (simp add: not_less)
    then show ?thesis
      using False Cons.prems(2) by auto
  qed
qed

lemma sorted_SliceStable:
  fixes f :: "'a \<Rightarrow> int"
  assumes "\<forall>u \<in> set xs. \<forall>v \<in> set xs. lt u v = (f u < f v)"
  shows "sorted_wrt (\<lambda>a b. f a \<le> f b) (SliceStable lt xs)"
  using assms
proof (induction xs)
  case Nil
  then show ?case by (simp add: SliceStable_def)
next
  case (Cons x xs)
  have "sorted_wrt (\<lambda>a b. f a \<le> f b) (SliceStable lt xs)"
    using Cons by simp
  moreover have "\<forall>u \<in> insert x (set (SliceStable lt xs)). \<forall>v \<in> insert x (set (SliceStable lt xs)). lt u v = (f u < f v)"
    using Cons.prems by (simp add: set_SliceStable)
  ultimately have "sorted_wrt (\<lambda>a b. f a \<le> f b) (insertStable lt x (SliceStable lt xs))"
    by (rule sorted_insertStable[rotated])
  then show ?case by (simp add: SliceStable_def)
qed

lemma fetchKids_completed:
  "fetchKids oc ns refs a b = Some (a', b') \<Longrightarrow> \<forall>x \<in> set b. completed x \<Longrightarrow>
   \<forall>x \<in> set b'. completed x"
proof (induction refs arbitrary: a b)
  case Nil
  then show ?case by simp
next
  case (Cons r refs)
  show ?case
  proof (cases "ref_Kind r \<noteq> ''TaskRun''")
    case True
    with Cons.prems(1) have "fetchKids oc ns refs a b = Some (a', b')" by simp
    then show ?thesis using Cons.prems(2) by (rule Cons.IH)
  next
    case False
    show ?thesis
    proof (cases "getTaskRun oc ns (ref_Name r)")
      case (Inl err)
      with False Cons.prems(1) show ?thesis by simp
    next
      case (Inr kid)
      let ?b = "if tr_CompletionTime kid \<noteq> None then b @ [kid] else b"
      from False Inr Cons.prems(1) have "fetchKids oc ns refs (a @ [kid]) ?b = Some (a', b')"
        by simp
      moreover have "\<forall>x \<in> set ?b. completed x"
        using Cons.prems(2) by (simp add: completed_def)
      ultimately show ?thesis by (rule Cons.IH)
    qed
  qed
qed

lemma fetchKids_fail:
  "r \<in> set refs \<Longrightarrow> ref_Kind r = ''TaskRun'' \<Longrightarrow> getTaskRun oc ns (ref_Name r) = Inl err \<Longrightarrow>
   fetchKids oc ns refs a b = None"
proof (induction refs arbitrary: a b)
  case Nil
  then show ?case by simp
next
  case (Cons x refs)
  show ?case
  proof (cases "x = r")
    case True
    with Cons.prems show ?thesis by simp
  next
    case False
    with Cons.prems have IH: "\<And>a b. fetchKids oc ns refs a b = None"
      using Cons.IH by simp
    show ?thesis
    proof (cases "getTaskRun oc ns (ref_Name x)")
      case (Inl e)
      then show ?thesis using IH by simp
    next
      case (Inr kid)
      then show ?thesis using IH by simp
    qed
  qed
qed

lemma fetchKids_ok:
  "\<forall>r \<in> set refs. ref_Kind r = ''TaskRun'' \<longrightarrow> (\<exists>kid. getTaskRun oc ns (ref_Name r) = Inr kid) \<Longrightarrow>
   \<exists>res. fetchKids oc ns refs a b = Some res"
proof (induction refs arbitrary: a b)
  case Nil
  then show ?case by simp
next
  case (Cons x refs)
  then have IH: "\<And>a b. \<exists>res. fetchKids oc ns refs a b = Some res" by simp
  show ?case
  proof (cases "ref_Kind x \<noteq> ''TaskRun''")
    case True
    then show ?thesis using IH by simp
  next
    case False
    with Cons.prems obtain kid where "getTaskRun oc ns (ref_Name x) = Inr kid" by auto
    with False show ?thesis using IH by simp
  qed
qed

lemma sort_completed:
  assumes "sortTaskRunsForGapCalculations oc pr = (bc, bk, False)"
  shows "\<forall>x \<in> set bk. completed x"
proof -
  from assms obtain a b where f: "fetchKids oc (pr_Namespace pr) (pr_ChildReferences pr) [] [] = Some (a, b)"
    and bk: "bk = SliceStable completedAfter b"
    by (auto simp: sortTaskRunsForGapCalculations_def split: option.splits)
  from fetchKids_completed[OF f] have "\<forall>x \<in> set b. completed x" by simp
  then show ?thesis by (simp add: bk set_SliceStable)
qed

lemma sort_descending:
  assumes "sortTaskRunsForGapCalculations oc pr = (bc, bk, False)"
  shows "sorted_wrt (\<lambda>x y. negCompletion x \<le> negCompletion y) bk"
proof -
  from assms obtain a b where f: "fetchKids oc (pr_Namespace pr) (pr_ChildReferences pr) [] [] = Some (a, b)"
    and bk: "bk = SliceStable completedAfter b"
    by (auto simp: sortTaskRunsForGapCalculations_def split: option.splits)
  from fetchKids_completed[OF f] have c: "\<forall>x \<in> set b. completed x" by simp
  have "\<forall>u \<in> set b. \<forall>v \<in> set b. completedAfter u v = (negCompletion u < negCompletion v)"
  proof (intro ballI)
    fix u v
    assume "u \<in> set b" and "v \<in> set b"
    with c have "completed u" and "completed v" by simp_all
    then obtain tu tv where "tr_CompletionTime u = Some tu" and "tr_CompletionTime v = Some tv"
      unfolding completed_def by auto
    then show "completedAfter u v = (negCompletion u < negCompletion v)"
      by (simp add: completedAfter_def negCompletion_def After_def)
  qed
  then show ?thesis unfolding bk by (rule sorted_SliceStable)
qed

lemma sort_ascending:
  assumes "sortTaskRunsForGapCalculations oc pr = (bc, bk, False)"
  shows "sorted_wrt (\<lambda>x y. tr_CreationTimestamp x \<le> tr_CreationTimestamp y) bc"
proof -
  from assms obtain a b where bc: "bc = SliceStable createdBefore a"
    by (auto simp: sortTaskRunsForGapCalculations_def split: option.splits)
  have "\<forall>u \<in> set a. \<forall>v \<in> set a. createdBefore u v = (tr_CreationTimestamp u < tr_CreationTimestamp v)"
    by (simp add: createdBefore_def Before_def)
  then show ?thesis unfolding bc by (rule sorted_SliceStable)
qed

section \<open>The loop of calculateGaps\<close>

lemma gapEntryAt_done:
  "runDone pr \<Longrightarrow> gapEntryAt rt pr bc bk index tr \<noteq> Inr None"
  by (simp add: gapEntryAt_def runDone_def Let_def split: list.split sum.split prod.split)

lemma calculateGapsLoop_Inr:
  "calculateGapsLoop rt pr bc bk index trs acc = Inr out \<Longrightarrow> runDone pr \<Longrightarrow>
   length out = length acc + length trs \<and> take (length acc) out = acc \<and>
   (\<forall>j < length trs. gapEntryAt rt pr bc bk (index + j) (trs ! j) = Inr (Some (out ! (length acc + j))))"
proof (induction trs arbitrary: index acc)
  case Nil
  then show ?case by simp
next
  case (Cons tr trs)
  from gapEntryAt_done[OF Cons.prems(2)] have nn: "gapEntryAt rt pr bc bk index tr \<noteq> Inr None" .
  from Cons.prems(1) nn obtain e where e: "gapEntryAt rt pr bc bk index tr = Inr (Some e)"
    and rec: "calculateGapsLoop rt pr bc bk (Suc index) trs (acc @ [e]) = Inr out"
    by (auto split: sum.splits option.splits)
  from Cons.IH[OF rec Cons.prems(2)]
  have len: "length out = length (acc @ [e]) + length trs"
    and pre: "take (length (acc @ [e])) out = acc @ [e]"
    and rest: "\<forall>j < length trs. gapEntryAt rt pr bc bk (Suc index + j) (trs ! j) =
                 Inr (Some (out ! (length (acc @ [e]) + j)))"
    by auto
  have at: "out ! length acc = e"
  proof -
    have "out ! length acc = take (length (acc @ [e])) out ! length acc" by simp
    also have "\<dots> = e" unfolding pre by simp
    finally show ?thesis .
  qed
  have pre': "take (length acc) out = acc"
  proof -
    have "take (length acc) out = take (length acc) (take (length (acc @ [e])) out)" by simp
    also have "\<dots> = acc" unfolding pre by simp
    finally show ?thesis .
  qed
  show ?case
  proof (intro conjI allI impI)
    show "length out = length acc + length (tr # trs)" using len by simp
  next
    show "take (length acc) out = acc" by (rule pre')
  next
    fix j
    assume j: "j < length (tr # trs)"
    show "gapEntryAt rt pr bc bk (index + j) ((tr # trs) ! j) = Inr (Some (out ! (length acc + j)))"
    proof (cases j)
      case 0
      then show ?thesis using e at by simp
    next
      case (Suc k)
      then have "k < length trs" using j by simp
      with rest have "gapEntryAt rt pr bc bk (Suc index + k) (trs ! k) =
          Inr (Some (out ! (length (acc @ [e]) + k)))" by blast
      then show ?thesis using Suc by simp
    qed
  qed
qed

lemma scanCandidates_total:
  "\<forall>x \<in> set bk. completed x \<Longrightarrow> \<exists>res. scanCandidates tr bk chosen = Inr res"
  by (induction bk) (auto simp: completed_def)

lemma defaultPredecessor_total:
  "\<forall>x \<in> set bk. completed x \<Longrightarrow> \<exists>res. defaultPredecessor rt pr bk = Inr res"
proof (cases "bk = []")
  case True
  then show ?thesis by (simp add: defaultPredecessor_def)
next
  case False
  assume a: "\<forall>x \<in> set bk. completed x"
  from False have "last bk \<in> set bk" by simp
  with a obtain ct where "tr_CompletionTime (last bk) = Some ct"
    by (fastforce simp: completed_def)
  with False show ?thesis by (simp add: defaultPredecessor_def Let_def)
qed

lemma gapEntryAt_total:
  assumes "\<forall>x \<in> set bk. completed x" and "index = 0 \<or> bc \<noteq> []"
  shows "\<exists>res. gapEntryAt rt pr bc bk index tr = Inr res"
proof -
  obtain d where d: "defaultPredecessor rt pr bk = Inr d"
    using defaultPredecessor_total[OF assms(1)] by blast
  obtain c t where s: "scanCandidates tr bk d = Inr (c, t)"
    using scanCandidates_total[OF assms(1)] by (metis surj_pair)
  show ?thesis
    using assms(2) d s by (cases bc; cases "index = 0") (simp_all add: gapEntryAt_def Let_def)
qed

lemma calculateGapsLoop_total:
  assumes "\<forall>x \<in> set bk. completed x" and "trs \<noteq> [] \<longrightarrow> bc \<noteq> []"
  shows "\<exists>out. calculateGapsLoop rt pr bc bk index trs acc = Inr out"
  using assms(2)
proof (induction trs arbitrary: index acc)
  case Nil
  then show ?case by simp
next
  case (Cons tr trs)
  then have bc: "bc \<noteq> []" by simp
  obtain res where r: "gapEntryAt rt pr bc bk index tr = Inr res"
    using gapEntryAt_total[OF assms(1)] bc by blast
  show ?case
  proof (cases res)
    case None
    then show ?thesis using r Cons.IH[of "Suc index" acc] bc by simp
  next
    case (Some e)
    then show ?thesis using r Cons.IH[of "Suc index" "acc @ [e]"] bc by simp
  qed
qed

lemma calculateGaps_total:
  "\<forall>x \<in> set bk. completed x \<Longrightarrow> \<exists>out. calculateGaps rt pr bc bk = Inr out"
  unfolding calculateGaps_def by (rule calculateGapsLoop_total) auto

lemma calculateGaps_nth:
  assumes "calculateGaps rt pr bc bk = Inr out" and "runDone pr"
  shows "length out = length bc"
    and "i < length bc \<Longrightarrow> gapEntryAt rt pr bc bk i (bc ! i) = Inr (Some (out ! i))"
  using calculateGapsLoop_Inr[OF assms(1)[unfolded calculateGaps_def] assms(2)] by auto

section \<open>The scan for a predecessor\<close>

lemma scanCandidates_none:
  "\<forall>x \<in> set bk. completed x \<Longrightarrow> \<not> (\<exists>q u. q \<in> set bk \<and> candidate tr q u) \<Longrightarrow>
   scanCandidates tr bk chosen = Inr chosen"
proof (induction bk)
  case Nil
  then show ?case by simp
next
  case (Cons x bk)
  then obtain tx where tx: "tr_CompletionTime x = Some tx"
    by (auto simp: completed_def)
  from Cons.prems have "\<forall>x \<in> set bk. completed x"
    and "\<not> (\<exists>q u. q \<in> set bk \<and> candidate tr q u)" by auto
  then have IH: "scanCandidates tr bk chosen = Inr chosen"
    by (rule Cons.IH)
  from Cons.prems(2) have "\<not> candidate tr x tx" by auto
  then have "tr_Name x = tr_Name tr \<or> After tx (tr_CreationTimestamp tr)"
    using tx by (simp add: candidate_def)
  then show ?case using tx IH by auto
qed

lemma scanCandidates_some:
  "\<forall>x \<in> set bk. completed x \<Longrightarrow> sorted_wrt (\<lambda>x y. negCompletion x \<le> negCompletion y) bk \<Longrightarrow>
   \<exists>q u. q \<in> set bk \<and> candidate tr q u \<Longrightarrow>
   \<exists>p t. p \<in> set bk \<and> candidate tr p t \<and> (\<forall>q u. q \<in> set bk \<and> candidate tr q u \<longrightarrow> u \<le> t) \<and>
         scanCandidates tr bk chosen = Inr (taskRef (tr_Labels p), t)"
proof (induction bk)
  case Nil
  then show ?case by simp
next
  case (Cons x bk)
  then obtain tx where tx: "tr_CompletionTime x = Some tx"
    by (auto simp: completed_def)
  show ?case
  proof (cases "candidate tr x tx")
    case True
    have "u \<le> tx" if "q \<in> set (x # bk)" and "candidate tr q u" for q u
    proof (cases "q = x")
      case True
      with that tx show ?thesis by (simp add: candidate_def)
    next
      case False
      with that have "q \<in> set bk" by simp
      with Cons.prems(2) have "negCompletion x \<le> negCompletion q" by auto
      moreover from that have "tr_CompletionTime q = Some u" by (simp add: candidate_def)
      ultimately show ?thesis using tx by (simp add: negCompletion_def)
    qed
    moreover have "scanCandidates tr (x # bk) chosen = Inr (taskRef (tr_Labels x), tx)"
      using True tx by (simp add: candidate_def)
    ultimately show ?thesis using True by (intro exI[of _ x] exI[of _ tx]) auto
  next
    case False
    then have skip: "tr_Name x = tr_Name tr \<or> After tx (tr_CreationTimestamp tr)"
      using tx by (simp add: candidate_def)
    then have step: "scanCandidates tr (x # bk) chosen = scanCandidates tr bk chosen"
      using tx by auto
    have notx: "\<not> candidate tr x u" for u
      using False tx by (auto simp: candidate_def)
    from Cons.prems(3) notx have ex: "\<exists>q u. q \<in> set bk \<and> candidate tr q u" by auto
    from Cons.prems have "\<forall>x \<in> set bk. completed x"
      and "sorted_wrt (\<lambda>x y. negCompletion x \<le> negCompletion y) bk" by simp_all
    from Cons.IH[OF this ex] obtain p t where pt: "p \<in> set bk" "candidate tr p t"
      "\<forall>q u. q \<in> set bk \<and> candidate tr q u \<longrightarrow> u \<le> t"
      "scanCandidates tr bk chosen = Inr (taskRef (tr_Labels p), t)" by blast
    have "\<forall>q u. q \<in> set (x # bk) \<and> candidate tr q u \<longrightarrow> u \<le> t"
      using pt(3) notx by auto
    then show ?thesis using pt step by (intro exI[of _ p] exI[of _ t]) auto
  qed
qed

lemma sorted_wrt_last:
  "sorted_wrt P xs \<Longrightarrow> xs \<noteq> [] \<Longrightarrow> \<forall>x. P x x \<Longrightarrow> \<forall>x \<in> set xs. P x (last xs)"
  by (induction xs) auto

lemma gapEntryAt_first:
  "runDone pr \<Longrightarrow>
   gapEntryAt rt pr bc bk 0 tr =
     Inr (Some \<lparr>ge_status = runStatus pr, ge_pipeline = pipelineRunPipelineRef rt pr,
       ge_completed = pipelineRunPipelineRef rt pr, ge_upcoming = taskRef (tr_Labels tr),
       ge_gap = Milliseconds (Sub (tr_CreationTimestamp tr) (pr_CreationTimestamp pr))\<rparr>)"
  by (simp add: gapEntryAt_def runDone_def runStatus_def Let_def)

lemma gapEntryAt_parallel:
  "runDone pr \<Longrightarrow> 0 < index \<Longrightarrow> bc = firstKid # others \<Longrightarrow>
   tr_CompletionTime firstKid = Some ct \<Longrightarrow> After ct (tr_CreationTimestamp tr) \<Longrightarrow>
   gapEntryAt rt pr bc bk index tr =
     Inr (Some \<lparr>ge_status = runStatus pr, ge_pipeline = pipelineRunPipelineRef rt pr,
       ge_completed = pipelineRunPipelineRef rt pr, ge_upcoming = taskRef (tr_Labels tr),
       ge_gap = Milliseconds (Sub (tr_CreationTimestamp tr) (pr_CreationTimestamp pr))\<rparr>)"
  by (simp add: gapEntryAt_def runDone_def runStatus_def Let_def)

lemma gapEntryAt_chained:
  "runDone pr \<Longrightarrow> 0 < index \<Longrightarrow> bc = firstKid # others \<Longrightarrow>
   \<forall>ct. tr_CompletionTime firstKid = Some ct \<longrightarrow> \<not> After ct (tr_CreationTimestamp tr) \<Longrightarrow>
   defaultPredecessor rt pr bk = Inr chosen \<Longrightarrow>
   scanCandidates tr bk chosen = Inr (completedID, timeToCalculateWith) \<Longrightarrow>
   gapEntryAt rt pr bc bk index tr =
     Inr (Some \<lparr>ge_status = runStatus pr, ge_pipeline = pipelineRunPipelineRef rt pr,
       ge_completed = completedID, ge_upcoming = taskRef (tr_Labels tr),
       ge_gap = Milliseconds (Sub (tr_CreationTimestamp tr) timeToCalculateWith)\<rparr>)"
  by (cases "tr_CompletionTime firstKid")
     (simp_all add: gapEntryAt_def runDone_def runStatus_def Let_def)

lemma sort_head_earliest:
  assumes "sortTaskRunsForGapCalculations oc pr = (bc, bk, False)" and "i < length bc"
  shows "tr_CreationTimestamp (bc ! 0) \<le> tr_CreationTimestamp (bc ! i)"
proof (cases i)
  case 0
  then show ?thesis by simp
next
  case (Suc k)
  from sort_ascending[OF assms(1)]
  have "sorted_wrt (\<lambda>x y. tr_CreationTimestamp x \<le> tr_CreationTimestamp y) bc" .
  then show ?thesis using assms(2) Suc by (simp add: sorted_wrt_iff_nth_less)
qed

section \<open>Gaps of parallel and of chained task runs\<close>

text \<open>
  Claim C5. Take the two sorted lists of a run whose fetches all succeed, and a done
  run. A task run at a later position \<open>i\<close> of the creation order, created before the
  completion time of the task run at position 0 (the earliest created), is parallel:
  its gap entry names the pipeline run as the completed side, and its gap is its
  creation time minus the run's creation time, in milliseconds. The computation returns
  one entry per task run and does not panic.
\<close>

theorem parallel_step_gap:
  assumes "sortTaskRunsForGapCalculations oc pr = (bc, bk, False)"
    and "runDone pr"
    and "0 < i" and "i < length bc"
    and "tr_CompletionTime (bc ! 0) = Some ct"
    and "After ct (tr_CreationTimestamp (bc ! i))"
  shows "\<exists>out. calculateGaps rt pr bc bk = Inr out \<and> length out = length bc \<and>
           tr_CreationTimestamp (bc ! 0) \<le> tr_CreationTimestamp (bc ! i) \<and>
           ge_completed (out ! i) = pipelineRunPipelineRef rt pr \<and>
           ge_upcoming (out ! i) = taskRef (tr_Labels (bc ! i)) \<and>
           ge_gap (out ! i) =
             Milliseconds (Sub (tr_CreationTimestamp (bc ! i)) (pr_CreationTimestamp pr))"
proof -
  have c: "\<forall>x \<in> set bk. completed x" using assms(1) by (rule sort_completed)
  then obtain out where out: "calculateGaps rt pr bc bk = Inr out"
    using calculateGaps_total by blast
  from assms(4) obtain firstKid others where bc: "bc = firstKid # others"
    by (cases bc) auto
  then have f: "tr_CompletionTime firstKid = Some ct" using assms(5) by simp
  have "gapEntryAt rt pr bc bk i (bc ! i) = Inr (Some (out ! i))"
    using calculateGaps_nth(2)[OF out assms(2) assms(4)] .
  moreover note gapEntryAt_parallel[OF assms(2) assms(3) bc f assms(6), of rt bk]
  ultimately have "out ! i = \<lparr>ge_status = runStatus pr, ge_pipeline = pipelineRunPipelineRef rt pr,
       ge_completed = pipelineRunPipelineRef rt pr, ge_upcoming = taskRef (tr_Labels (bc ! i)),
       ge_gap = Milliseconds (Sub (tr_CreationTimestamp (bc ! i)) (pr_CreationTimestamp pr))\<rparr>"
    by simp
  then show ?thesis
    using out calculateGaps_nth(1)[OF out assms(2)] sort_head_earliest[OF assms(1) assms(4)]
    by simp
qed

lemma Milliseconds_Sub_nonpos: "t < u \<Longrightarrow> Milliseconds (Sub t u) \<le> 0"
  by (simp add: Milliseconds_def Sub_def Let_def maxDuration_def minDuration_def
      pos_imp_zdiv_nonneg_iff)

text \<open>
  Claim C1. What \<open>calculateGaps\<close> does for a task run at a later position \<open>i\<close> of the
  creation order that is not parallel. The gap is its creation time minus a reference
  time, in milliseconds:
  \<^item> when some other task run completed no later than its creation, the reference is
    the latest such completion time, and the entry names that task run, as claimed;
  \<^item> when there is none, the reference is the run's creation time, and the entry
    names the pipeline run, only if no task run of the run has completed at all;
  \<^item> when there is none and some task run has completed, the code keeps its initial
    choice, which no test guards: the last task run of the completion-descending list,
    the earliest to complete, which may be the task run itself. The entry names it,
    and not the pipeline run; when it is another task run it completed after this one
    was created, and the gap, measured from its completion, is zero or negative.
  In the third case the code departs from the claim, and from its own comments, which
  want a task run finished before this one was created and otherwise the pipeline run.
\<close>

theorem chained_step_gap:
  assumes "sortTaskRunsForGapCalculations oc pr = (bc, bk, False)"
    and "runDone pr"
    and "0 < i" and "i < length bc"
    and "\<forall>ct. tr_CompletionTime (bc ! 0) = Some ct \<longrightarrow> \<not> After ct (tr_CreationTimestamp (bc ! i))"
  shows "\<exists>out. calculateGaps rt pr bc bk = Inr out \<and> length out = length bc \<and>
           ge_upcoming (out ! i) = taskRef (tr_Labels (bc ! i)) \<and>
           ((\<exists>q u. q \<in> set bk \<and> candidate (bc ! i) q u) \<longrightarrow>
              (\<exists>p t. p \<in> set bk \<and> candidate (bc ! i) p t \<and>
                 (\<forall>q u. q \<in> set bk \<and> candidate (bc ! i) q u \<longrightarrow> u \<le> t) \<and>
                 ge_completed (out ! i) = taskRef (tr_Labels p) \<and>
                 ge_gap (out ! i) = Milliseconds (Sub (tr_CreationTimestamp (bc ! i)) t))) \<and>
           (\<not> (\<exists>q u. q \<in> set bk \<and> candidate (bc ! i) q u) \<and> bk = [] \<longrightarrow>
              ge_completed (out ! i) = pipelineRunPipelineRef rt pr \<and>
              ge_gap (out ! i) =
                Milliseconds (Sub (tr_CreationTimestamp (bc ! i)) (pr_CreationTimestamp pr))) \<and>
           (\<not> (\<exists>q u. q \<in> set bk \<and> candidate (bc ! i) q u) \<and> bk \<noteq> [] \<longrightarrow>
              (\<exists>t. tr_CompletionTime (last bk) = Some t \<and>
                 (\<forall>q u. q \<in> set bk \<and> tr_CompletionTime q = Some u \<longrightarrow> t \<le> u) \<and>
                 ge_completed (out ! i) = taskRef (tr_Labels (last bk)) \<and>
                 ge_gap (out ! i) = Milliseconds (Sub (tr_CreationTimestamp (bc ! i)) t) \<and>
                 (tr_Name (last bk) \<noteq> tr_Name (bc ! i) \<longrightarrow>
                    After t (tr_CreationTimestamp (bc ! i)) \<and> ge_gap (out ! i) \<le> 0)))"
proof -
  let ?tr = "bc ! i"
  have c: "\<forall>x \<in> set bk. completed x" using assms(1) by (rule sort_completed)
  have srt: "sorted_wrt (\<lambda>x y. negCompletion x \<le> negCompletion y) bk"
    using assms(1) by (rule sort_descending)
  obtain out where out: "calculateGaps rt pr bc bk = Inr out"
    using calculateGaps_total[OF c] by blast
  have len: "length out = length bc" using calculateGaps_nth(1)[OF out assms(2)] .
  from assms(4) obtain firstKid others where bc: "bc = firstKid # others"
    by (cases bc) auto
  then have np: "\<forall>ct. tr_CompletionTime firstKid = Some ct \<longrightarrow> \<not> After ct (tr_CreationTimestamp ?tr)"
    using assms(5) by simp
  obtain chosen where d: "defaultPredecessor rt pr bk = Inr chosen"
    using defaultPredecessor_total[OF c] by blast
  obtain cid t where sc: "scanCandidates ?tr bk chosen = Inr (cid, t)"
    using scanCandidates_total[OF c] by (metis surj_pair)
  have at: "gapEntryAt rt pr bc bk i ?tr = Inr (Some (out ! i))"
    using calculateGaps_nth(2)[OF out assms(2) assms(4)] .
  have e: "out ! i = \<lparr>ge_status = runStatus pr, ge_pipeline = pipelineRunPipelineRef rt pr,
       ge_completed = cid, ge_upcoming = taskRef (tr_Labels ?tr),
       ge_gap = Milliseconds (Sub (tr_CreationTimestamp ?tr) t)\<rparr>"
    using at gapEntryAt_chained[OF assms(2) assms(3) bc np d sc] by simp
  have A: "\<exists>p t'. p \<in> set bk \<and> candidate ?tr p t' \<and>
                 (\<forall>q u. q \<in> set bk \<and> candidate ?tr q u \<longrightarrow> u \<le> t') \<and>
                 ge_completed (out ! i) = taskRef (tr_Labels p) \<and>
                 ge_gap (out ! i) = Milliseconds (Sub (tr_CreationTimestamp ?tr) t')"
    if ex: "\<exists>q u. q \<in> set bk \<and> candidate ?tr q u"
  proof -
    from scanCandidates_some[OF c srt ex, of chosen] obtain p t' where
      pt: "p \<in> set bk" "candidate ?tr p t'"
        "\<forall>q u. q \<in> set bk \<and> candidate ?tr q u \<longrightarrow> u \<le> t'"
        "scanCandidates ?tr bk chosen = Inr (taskRef (tr_Labels p), t')" by blast
    from pt(4) sc have "cid = taskRef (tr_Labels p)" and "t = t'" by simp_all
    then show ?thesis using pt(1,2,3) e by (intro exI[of _ p] exI[of _ t']) simp
  qed
  have nc: "(cid, t) = chosen" if "\<not> (\<exists>q u. q \<in> set bk \<and> candidate ?tr q u)"
    using scanCandidates_none[OF c that, of chosen] sc by simp
  have B: "ge_completed (out ! i) = pipelineRunPipelineRef rt pr \<and>
           ge_gap (out ! i) = Milliseconds (Sub (tr_CreationTimestamp ?tr) (pr_CreationTimestamp pr))"
    if "\<not> (\<exists>q u. q \<in> set bk \<and> candidate ?tr q u)" and "bk = []"
  proof -
    from d that(2) have "chosen = (pipelineRunPipelineRef rt pr, pr_CreationTimestamp pr)"
      by (simp add: defaultPredecessor_def)
    with nc[OF that(1)] e show ?thesis by simp
  qed
  have C: "\<exists>t'. tr_CompletionTime (last bk) = Some t' \<and>
                 (\<forall>q u. q \<in> set bk \<and> tr_CompletionTime q = Some u \<longrightarrow> t' \<le> u) \<and>
                 ge_completed (out ! i) = taskRef (tr_Labels (last bk)) \<and>
                 ge_gap (out ! i) = Milliseconds (Sub (tr_CreationTimestamp ?tr) t') \<and>
                 (tr_Name (last bk) \<noteq> tr_Name ?tr \<longrightarrow>
                    After t' (tr_CreationTimestamp ?tr) \<and> ge_gap (out ! i) \<le> 0)"
    if "\<not> (\<exists>q u. q \<in> set bk \<and> candidate ?tr q u)" and "bk \<noteq> []"
  proof -
    from that(2) have mem: "last bk \<in> set bk" by simp
    with c obtain t' where t': "tr_CompletionTime (last bk) = Some t'"
      by (auto simp: completed_def)
    have late: "After t' (tr_CreationTimestamp ?tr) \<and>
        Milliseconds (Sub (tr_CreationTimestamp ?tr) t') \<le> 0"
      if n: "tr_Name (last bk) \<noteq> tr_Name ?tr"
    proof -
      have "\<not> candidate ?tr (last bk) t'" using \<open>\<not> (\<exists>q u. q \<in> set bk \<and> candidate ?tr q u)\<close> mem by blast
      then have a: "After t' (tr_CreationTimestamp ?tr)" using n t' by (simp add: candidate_def)
      then have "tr_CreationTimestamp ?tr < t'" by (simp add: After_def)
      then show ?thesis using a Milliseconds_Sub_nonpos by simp
    qed
    from t' d that(2) have "chosen = (taskRef (tr_Labels (last bk)), t')"
      by (simp add: defaultPredecessor_def Let_def)
    with nc[OF that(1)] have ct: "cid = taskRef (tr_Labels (last bk))" "t = t'" by simp_all
    have "\<forall>x \<in> set bk. negCompletion x \<le> negCompletion (last bk)"
      using sorted_wrt_last[OF srt that(2)] by simp
    then have "\<forall>q u. q \<in> set bk \<and> tr_CompletionTime q = Some u \<longrightarrow> t' \<le> u"
      using t' by (auto simp: negCompletion_def)
    then show ?thesis using t' ct e late by simp
  qed
  show ?thesis
    using out len e A B C by (intro exI[of _ out]) simp
qed

section \<open>A run with one task run\<close>

lemma Milliseconds_Sub_exact:
  "minDuration \<le> t - u \<Longrightarrow> t - u \<le> maxDuration \<Longrightarrow> (t - u) mod 1000000 = 0 \<Longrightarrow>
   Milliseconds (Sub t u) * 1000000 = t - u"
proof -
  assume a: "minDuration \<le> t - u" "t - u \<le> maxDuration" and m: "(t - u) mod 1000000 = 0"
  have s: "Sub t u = t - u" using a by (simp add: Sub_def Let_def)
  from m have d: "(1000000::int) dvd (t - u)" by (simp add: dvd_eq_mod_eq_0)
  then have d': "(1000000::int) dvd - (t - u)" by (simp only: dvd_minus_iff)
  have 1: "(t - u) div 1000000 * 1000000 = t - u"
    using d by (rule dvd_div_mult_self)
  have 2: "(- (t - u)) div 1000000 * 1000000 = - (t - u)"
    using d' by (rule dvd_div_mult_self)
  show ?thesis
  proof (cases "t - u < 0")
    case True
    then have "Milliseconds (t - u) = - ((- (t - u)) div 1000000)"
      by (simp add: Milliseconds_def)
    then have "Milliseconds (t - u) * 1000000 = - ((- (t - u)) div 1000000 * 1000000)"
      by simp
    also have "\<dots> = t - u" unfolding 2 by simp
    finally show ?thesis unfolding s .
  next
    case False
    then have "Milliseconds (t - u) = (t - u) div 1000000"
      by (simp add: Milliseconds_def)
    then show ?thesis unfolding s using 1 by simp
  qed
qed

lemma single_step_calculate:
  "runDone pr \<Longrightarrow>
   calculateGaps rt pr [tr] byCompletion =
     Inr [\<lparr>ge_status = runStatus pr, ge_pipeline = pipelineRunPipelineRef rt pr,
            ge_completed = pipelineRunPipelineRef rt pr,
            ge_upcoming = taskRef (tr_Labels tr),
            ge_gap = Milliseconds (Sub (tr_CreationTimestamp tr) (pr_CreationTimestamp pr))\<rparr>]"
  by (simp add: calculateGaps_def gapEntryAt_first)

lemma single_step_accumulate:
  assumes "pr_ChildReferences pr = [kidRef]"
    and "ref_Kind kidRef = ''TaskRun''"
    and "getTaskRun oc (pr_Namespace pr) (ref_Name kidRef) = Inr tr"
    and "pr_CompletionTime pr \<noteq> None"
    and "pr_Labels pr THROTTLED_LABEL = None"
    and "runDone pr"
  shows "accumulateGaps rt oc pr =
           Inr (Milliseconds (Sub (tr_CreationTimestamp tr) (pr_CreationTimestamp pr)),
                [\<lparr>ge_status = runStatus pr, ge_pipeline = pipelineRunPipelineRef rt pr,
                  ge_completed = pipelineRunPipelineRef rt pr,
                  ge_upcoming = taskRef (tr_Labels tr),
                  ge_gap = Milliseconds (Sub (tr_CreationTimestamp tr) (pr_CreationTimestamp pr))\<rparr>],
                True)"
proof -
  have skip: "\<not> skipPipelineRun pr"
    using assms(1,4,5) by (simp add: skipPipelineRun_def)
  obtain bk where srt: "sortTaskRunsForGapCalculations oc pr = ([tr], bk, False)"
    using assms(1,2,3)
    by (simp add: sortTaskRunsForGapCalculations_def SliceStable_def)
  show ?thesis
    using skip srt single_step_calculate[OF assms(6), of rt tr bk]
    by (simp add: accumulateGaps_def)
qed

text \<open>
  Claim C6. For a done run and a single task run, \<open>calculateGaps\<close> returns exactly one
  gap entry, whatever the list sorted by completion holds: the entry names the pipeline
  run as the completed side, and its gap is the task run's creation time minus the
  run's creation time in milliseconds (\<open>Sub\<close> then \<open>Milliseconds\<close>: the exact
  difference when it is a whole number of milliseconds within the Duration range).
  The gap is the same for every done condition the run may carry, success or failure.
  From the run itself: when its only child reference is a task run that is fetched,
  and it has a completion time and no throttle label, \<open>accumulateGaps\<close> returns that
  one entry, its gap as the gap total, and \<open>foundGaps = true\<close>.
\<close>

theorem single_step_gap:
  assumes "runDone pr"
  shows "(\<exists>e. calculateGaps rt pr [tr] byCompletion = Inr [e] \<and>
            ge_completed e = pipelineRunPipelineRef rt pr \<and>
            ge_upcoming e = taskRef (tr_Labels tr) \<and>
            ge_gap e = Milliseconds (Sub (tr_CreationTimestamp tr) (pr_CreationTimestamp pr)))
         \<and> (\<forall>conditions. runDone (pr\<lparr>pr_Conditions := conditions\<rparr>) \<longrightarrow>
              (\<exists>e. calculateGaps rt (pr\<lparr>pr_Conditions := conditions\<rparr>) [tr] byCompletion = Inr [e] \<and>
               ge_gap e = Milliseconds (Sub (tr_CreationTimestamp tr) (pr_CreationTimestamp pr))))
         \<and> (minDuration \<le> tr_CreationTimestamp tr - pr_CreationTimestamp pr \<and>
            tr_CreationTimestamp tr - pr_CreationTimestamp pr \<le> maxDuration \<and>
            (tr_CreationTimestamp tr - pr_CreationTimestamp pr) mod 1000000 = 0 \<longrightarrow>
              Milliseconds (Sub (tr_CreationTimestamp tr) (pr_CreationTimestamp pr)) * 1000000 =
                tr_CreationTimestamp tr - pr_CreationTimestamp pr)
         \<and> (pr_ChildReferences pr = [kidRef] \<and> ref_Kind kidRef = ''TaskRun'' \<and>
            getTaskRun oc (pr_Namespace pr) (ref_Name kidRef) = Inr tr \<and>
            pr_CompletionTime pr \<noteq> None \<and> pr_Labels pr THROTTLED_LABEL = None \<longrightarrow>
              (\<exists>e. accumulateGaps rt oc pr =
                 Inr (Milliseconds (Sub (tr_CreationTimestamp tr) (pr_CreationTimestamp pr)), [e], True) \<and>
               ge_completed e = pipelineRunPipelineRef rt pr \<and>
               ge_gap e = Milliseconds (Sub (tr_CreationTimestamp tr) (pr_CreationTimestamp pr))))"
proof (intro conjI allI impI)
  show "\<exists>e. calculateGaps rt pr [tr] byCompletion = Inr [e] \<and>
            ge_completed e = pipelineRunPipelineRef rt pr \<and>
            ge_upcoming e = taskRef (tr_Labels tr) \<and>
            ge_gap e = Milliseconds (Sub (tr_CreationTimestamp tr) (pr_CreationTimestamp pr))"
    using single_step_calculate[OF assms, of rt tr byCompletion] by simp
next
  fix conditions
  assume d: "runDone (pr\<lparr>pr_Conditions := conditions\<rparr>)"
  show "\<exists>e. calculateGaps rt (pr\<lparr>pr_Conditions := conditions\<rparr>) [tr] byCompletion = Inr [e] \<and>
               ge_gap e = Milliseconds (Sub (tr_CreationTimestamp tr) (pr_CreationTimestamp pr))"
    using single_step_calculate[OF d, of rt tr byCompletion] by simp
next
  assume "minDuration \<le> tr_CreationTimestamp tr - pr_CreationTimestamp pr \<and>
            tr_CreationTimestamp tr - pr_CreationTimestamp pr \<le> maxDuration \<and>
            (tr_CreationTimestamp tr - pr_CreationTimestamp pr) mod 1000000 = 0"
  then show "Milliseconds (Sub (tr_CreationTimestamp tr) (pr_CreationTimestamp pr)) * 1000000 =
                tr_CreationTimestamp tr - pr_CreationTimestamp pr"
    by (simp add: Milliseconds_Sub_exact)
next
  assume h: "pr_ChildReferences pr = [kidRef] \<and> ref_Kind kidRef = ''TaskRun'' \<and>
            getTaskRun oc (pr_Namespace pr) (ref_Name kidRef) = Inr tr \<and>
            pr_CompletionTime pr \<noteq> None \<and> pr_Labels pr THROTTLED_LABEL = None"
  have "accumulateGaps rt oc pr =
           Inr (Milliseconds (Sub (tr_CreationTimestamp tr) (pr_CreationTimestamp pr)),
                [\<lparr>ge_status = runStatus pr, ge_pipeline = pipelineRunPipelineRef rt pr,
                  ge_completed = pipelineRunPipelineRef rt pr,
                  ge_upcoming = taskRef (tr_Labels tr),
                  ge_gap = Milliseconds (Sub (tr_CreationTimestamp tr) (pr_CreationTimestamp pr))\<rparr>],
                True)"
    using h assms by (intro single_step_accumulate) blast+
  then show "\<exists>e. accumulateGaps rt oc pr =
                 Inr (Milliseconds (Sub (tr_CreationTimestamp tr) (pr_CreationTimestamp pr)), [e], True) \<and>
               ge_completed e = pipelineRunPipelineRef rt pr \<and>
               ge_gap e = Milliseconds (Sub (tr_CreationTimestamp tr) (pr_CreationTimestamp pr))"
    by simp
qed

section \<open>The example runs, evaluated\<close>

lemma ex_doneRun_done: "runDone (ex_doneRun names)"
  by (simp add: ex_defs eval_defs)

text \<open>
  The run with the single task run \<open>p\<close>, created half a second after the run, succeeded
  and failed.
\<close>

theorem single_step_gap_witness:
  "(\<exists>e. calculateGaps ex_rt (ex_doneRun [''p'']) [ex_p] [ex_p] = Inr [e] \<and>
        ge_completed e = ''run'' \<and> ge_upcoming e = ''p'' \<and> ge_gap e = 500)
   \<and> (\<exists>e. calculateGaps ex_rt
            ((ex_doneRun [''p''])\<lparr>pr_Conditions :=
               [\<lparr>cond_Type = ''Succeeded'', cond_Status = ''False'', cond_Reason = []\<rparr>]\<rparr>)
            [ex_p] [ex_p] = Inr [e] \<and>
        ge_gap e = 500)
   \<and> (\<exists>e. accumulateGaps ex_rt (ex_client [ex_p] (ex_doneRun [''p''])) (ex_doneRun [''p'']) =
          Inr (500, [e], True) \<and>
        ge_completed e = ''run'' \<and> ge_gap e = 500)"
proof -
  let ?run = "ex_doneRun [''p'']"
  let ?failed = "[\<lparr>cond_Type = ''Succeeded'', cond_Status = ''False'', cond_Reason = []\<rparr>]"
  have h: "pr_ChildReferences ?run = [ex_ref ''p''] \<and> ref_Kind (ex_ref ''p'') = ''TaskRun'' \<and>
      getTaskRun (ex_client [ex_p] ?run) (pr_Namespace ?run) (ref_Name (ex_ref ''p'')) = Inr ex_p \<and>
      pr_CompletionTime ?run \<noteq> None \<and> pr_Labels ?run THROTTLED_LABEL = None"
    by (simp add: ex_defs eval_defs)
  have d: "runDone (?run\<lparr>pr_Conditions := ?failed\<rparr>)"
    by (simp add: eval_defs)
  have v: "Milliseconds (Sub (tr_CreationTimestamp ex_p) (pr_CreationTimestamp ?run)) = 500"
    by (simp add: ex_defs eval_defs)
  have n: "pipelineRunPipelineRef ex_rt ?run = ''run''" "taskRef (tr_Labels ex_p) = ''p''"
    by (simp_all add: ex_defs eval_defs)
  note t = single_step_gap [OF ex_doneRun_done [of "[''p'']"], where rt = ex_rt and tr = ex_p
      and byCompletion = "[ex_p]" and kidRef = "ex_ref ''p''"
      and oc = "ex_client [ex_p] ?run", unfolded v n]
  have 1: "\<exists>e. calculateGaps ex_rt ?run [ex_p] [ex_p] = Inr [e] \<and>
        ge_completed e = ''run'' \<and> ge_upcoming e = ''p'' \<and> ge_gap e = 500"
    using t by blast
  have 2: "\<exists>e. calculateGaps ex_rt (?run\<lparr>pr_Conditions := ?failed\<rparr>) [ex_p] [ex_p] = Inr [e] \<and>
        ge_gap e = 500"
    using t d by blast
  have 3: "\<exists>e. accumulateGaps ex_rt (ex_client [ex_p] ?run) ?run = Inr (500, [e], True) \<and>
        ge_completed e = ''run'' \<and> ge_gap e = 500"
    using t h by blast
  show ?thesis using 1 2 3 by blast
qed

lemma ex_sort_pqr:
  "sortTaskRunsForGapCalculations (ex_client [ex_p, ex_q, ex_r] (ex_doneRun [''p'', ''q'', ''r'']))
     (ex_doneRun [''p'', ''q'', ''r'']) = ([ex_p, ex_q, ex_r], [ex_r, ex_q, ex_p], False)"
  by (simp add: sort_defs ex_defs ex_pqr_defs eval_defs)

lemma ex_sort_abc:
  "sortTaskRunsForGapCalculations (ex_client [ex_a, ex_b, ex_c] (ex_doneRun [''a'', ''b'', ''c'']))
     (ex_doneRun [''a'', ''b'', ''c'']) = ([ex_a, ex_b, ex_c], [ex_b, ex_c], False)"
  by (simp add: sort_defs ex_defs ex_abcd_defs eval_defs)

lemma ex_sort_ad:
  "sortTaskRunsForGapCalculations (ex_client [ex_a, ex_d] (ex_doneRun [''a'', ''d'']))
     (ex_doneRun [''a'', ''d'']) = ([ex_a, ex_d], [], False)"
  by (simp add: sort_defs ex_defs ex_abcd_defs eval_defs)

lemma ex_gaps_abc:
  "calculateGaps ex_rt (ex_doneRun [''a'', ''b'', ''c'']) [ex_a, ex_b, ex_c] [ex_b, ex_c] =
     Inr [ex_entry ''run'' ''a'' 500, ex_entry ''c'' ''b'' (- 20000), ex_entry ''c'' ''c'' (- 10000)]"
  by (simp add: gap_defs ex_entry_def ex_defs ex_abcd_defs eval_defs)

text \<open>
  The run of \<open>p\<close>, \<open>q\<close> and \<open>r\<close>: \<open>q\<close> is created while \<open>p\<close>, the first, still runs.
\<close>

theorem parallel_step_gap_witness:
  "sortTaskRunsForGapCalculations (ex_client [ex_p, ex_q, ex_r] (ex_doneRun [''p'', ''q'', ''r'']))
     (ex_doneRun [''p'', ''q'', ''r'']) = ([ex_p, ex_q, ex_r], [ex_r, ex_q, ex_p], False)
   \<and> tr_CompletionTime ex_p = Some 10000000000
   \<and> After 10000000000 (tr_CreationTimestamp ex_q)
   \<and> (\<exists>out. calculateGaps ex_rt (ex_doneRun [''p'', ''q'', ''r'']) [ex_p, ex_q, ex_r] [ex_r, ex_q, ex_p] = Inr out \<and>
          length out = 3 \<and> ge_completed (out ! 1) = ''run'' \<and> ge_upcoming (out ! 1) = ''q'' \<and>
          ge_gap (out ! 1) = 1500)"
proof -
  let ?run = "ex_doneRun [''p'', ''q'', ''r'']"
  have 3: "(0::nat) < 1" and 4: "1 < length [ex_p, ex_q, ex_r]" by simp_all
  have 5: "tr_CompletionTime ([ex_p, ex_q, ex_r] ! 0) = Some 10000000000"
    by (simp add: ex_defs ex_pqr_defs)
  have 6: "After 10000000000 (tr_CreationTimestamp ([ex_p, ex_q, ex_r] ! 1))"
    by (simp add: ex_defs ex_pqr_defs eval_defs)
  have v: "Milliseconds (Sub (tr_CreationTimestamp ([ex_p, ex_q, ex_r] ! 1)) (pr_CreationTimestamp ?run)) = 1500"
    "pipelineRunPipelineRef ex_rt ?run = ''run''"
    "taskRef (tr_Labels ([ex_p, ex_q, ex_r] ! 1)) = ''q''"
    by (simp_all add: ex_defs ex_pqr_defs eval_defs)
  from parallel_step_gap [OF ex_sort_pqr ex_doneRun_done 3 4 5 6, of ex_rt]
  have "\<exists>out. calculateGaps ex_rt ?run [ex_p, ex_q, ex_r] [ex_r, ex_q, ex_p] = Inr out \<and>
          length out = 3 \<and> ge_completed (out ! 1) = ''run'' \<and> ge_upcoming (out ! 1) = ''q'' \<and>
          ge_gap (out ! 1) = 1500"
    unfolding v by auto
  then show ?thesis using ex_sort_pqr 5 6 by simp
qed

text \<open>
  The three cases: \<open>r\<close> starts from \<open>q\<close>, the later of the two task runs completed before
  it; \<open>d\<close>, in a run where nothing completed, starts from the run; \<open>b\<close>, with no task run
  completed before it, is measured from \<open>c\<close>, the earliest to complete, which completed
  twenty seconds after \<open>b\<close> was created.
\<close>

theorem chained_step_gap_witness:
  "(\<exists>out. calculateGaps ex_rt (ex_doneRun [''p'', ''q'', ''r'']) [ex_p, ex_q, ex_r] [ex_r, ex_q, ex_p] = Inr out \<and>
      ge_completed (out ! 2) = ''q'' \<and> ge_upcoming (out ! 2) = ''r'' \<and> ge_gap (out ! 2) = 3000)
   \<and> (\<exists>out. calculateGaps ex_rt (ex_doneRun [''a'', ''d'']) [ex_a, ex_d] [] = Inr out \<and>
      ge_completed (out ! 1) = ''run'' \<and> ge_upcoming (out ! 1) = ''d'' \<and> ge_gap (out ! 1) = 4500)
   \<and> (\<exists>out. calculateGaps ex_rt (ex_doneRun [''a'', ''b'', ''c'']) [ex_a, ex_b, ex_c] [ex_b, ex_c] = Inr out \<and>
      ge_completed (out ! 1) = ''c'' \<and> ge_upcoming (out ! 1) = ''b'' \<and> ge_gap (out ! 1) = - 20000)"
proof -
  have A: "\<exists>out. calculateGaps ex_rt (ex_doneRun [''p'', ''q'', ''r'']) [ex_p, ex_q, ex_r] [ex_r, ex_q, ex_p] = Inr out \<and>
      ge_completed (out ! 2) = ''q'' \<and> ge_upcoming (out ! 2) = ''r'' \<and> ge_gap (out ! 2) = 3000"
  proof -
    have 3: "(0::nat) < 2" and 4: "2 < length [ex_p, ex_q, ex_r]" by simp_all
    have 5: "\<forall>ct. tr_CompletionTime ([ex_p, ex_q, ex_r] ! 0) = Some ct \<longrightarrow>
               \<not> After ct (tr_CreationTimestamp ([ex_p, ex_q, ex_r] ! 2))"
      by (simp add: ex_defs ex_pqr_defs eval_defs)
    have tr: "[ex_p, ex_q, ex_r] ! 2 = ex_r" by simp
    have cand: "candidate ex_r ex_q 12000000000"
      by (simp add: candidate_def ex_defs ex_pqr_defs eval_defs)
    then have ex: "\<exists>q u. q \<in> set [ex_r, ex_q, ex_p] \<and> candidate ex_r q u" by auto
    from chained_step_gap [OF ex_sort_pqr ex_doneRun_done 3 4 5, of ex_rt]
    obtain out where o: "calculateGaps ex_rt (ex_doneRun [''p'', ''q'', ''r'']) [ex_p, ex_q, ex_r] [ex_r, ex_q, ex_p] = Inr out"
      and up: "ge_upcoming (out ! 2) = taskRef (tr_Labels ex_r)"
      and br: "(\<exists>q u. q \<in> set [ex_r, ex_q, ex_p] \<and> candidate ex_r q u) \<longrightarrow>
              (\<exists>p t. p \<in> set [ex_r, ex_q, ex_p] \<and> candidate ex_r p t \<and>
                 (\<forall>q u. q \<in> set [ex_r, ex_q, ex_p] \<and> candidate ex_r q u \<longrightarrow> u \<le> t) \<and>
                 ge_completed (out ! 2) = taskRef (tr_Labels p) \<and>
                 ge_gap (out ! 2) = Milliseconds (Sub (tr_CreationTimestamp ex_r) t))"
      unfolding tr by blast
    from br ex obtain p t where pt: "p \<in> set [ex_r, ex_q, ex_p]" "candidate ex_r p t"
      "\<forall>q u. q \<in> set [ex_r, ex_q, ex_p] \<and> candidate ex_r q u \<longrightarrow> u \<le> t"
      "ge_completed (out ! 2) = taskRef (tr_Labels p)"
      "ge_gap (out ! 2) = Milliseconds (Sub (tr_CreationTimestamp ex_r) t)" by blast
    from pt(3) cand have le: "12000000000 \<le> t" by auto
    have "p = ex_q \<and> t = 12000000000"
      using pt(1,2) le by (auto simp: candidate_def ex_defs ex_pqr_defs)
    then show ?thesis using o up pt(4,5) by (simp add: ex_defs ex_pqr_defs eval_defs)
  qed
  have B: "\<exists>out. calculateGaps ex_rt (ex_doneRun [''a'', ''d'']) [ex_a, ex_d] [] = Inr out \<and>
      ge_completed (out ! 1) = ''run'' \<and> ge_upcoming (out ! 1) = ''d'' \<and> ge_gap (out ! 1) = 4500"
  proof -
    have 3: "(0::nat) < 1" and 4: "1 < length [ex_a, ex_d]" by simp_all
    have 5: "\<forall>ct. tr_CompletionTime ([ex_a, ex_d] ! 0) = Some ct \<longrightarrow>
               \<not> After ct (tr_CreationTimestamp ([ex_a, ex_d] ! 1))"
      by (simp add: ex_defs ex_abcd_defs eval_defs)
    have v: "Milliseconds (Sub (tr_CreationTimestamp ([ex_a, ex_d] ! 1))
                 (pr_CreationTimestamp (ex_doneRun [''a'', ''d'']))) = 4500"
      "pipelineRunPipelineRef ex_rt (ex_doneRun [''a'', ''d'']) = ''run''"
      "taskRef (tr_Labels ([ex_a, ex_d] ! 1)) = ''d''"
      by (simp_all add: ex_defs ex_abcd_defs eval_defs)
    from chained_step_gap [OF ex_sort_ad ex_doneRun_done 3 4 5, of ex_rt]
    show ?thesis unfolding v by auto
  qed
  have C: "\<exists>out. calculateGaps ex_rt (ex_doneRun [''a'', ''b'', ''c'']) [ex_a, ex_b, ex_c] [ex_b, ex_c] = Inr out \<and>
      ge_completed (out ! 1) = ''c'' \<and> ge_upcoming (out ! 1) = ''b'' \<and> ge_gap (out ! 1) = - 20000"
  proof -
    have 3: "(0::nat) < 1" and 4: "1 < length [ex_a, ex_b, ex_c]" by simp_all
    have 5: "\<forall>ct. tr_CompletionTime ([ex_a, ex_b, ex_c] ! 0) = Some ct \<longrightarrow>
               \<not> After ct (tr_CreationTimestamp ([ex_a, ex_b, ex_c] ! 1))"
      by (simp add: ex_defs ex_abcd_defs eval_defs)
    have tr: "[ex_a, ex_b, ex_c] ! 1 = ex_b" by simp
    have nc: "\<not> (\<exists>q u. q \<in> set [ex_b, ex_c] \<and> candidate ex_b q u)"
      by (auto simp: candidate_def ex_defs ex_abcd_defs eval_defs)
    have ne: "[ex_b, ex_c] \<noteq> []" "tr_Name (last [ex_b, ex_c]) \<noteq> tr_Name ex_b"
      by (simp_all add: ex_defs ex_abcd_defs)
    from chained_step_gap [OF ex_sort_abc ex_doneRun_done 3 4 5, of ex_rt]
    obtain out where o: "calculateGaps ex_rt (ex_doneRun [''a'', ''b'', ''c'']) [ex_a, ex_b, ex_c] [ex_b, ex_c] = Inr out"
      and up: "ge_upcoming (out ! 1) = taskRef (tr_Labels ex_b)"
      and br: "\<not> (\<exists>q u. q \<in> set [ex_b, ex_c] \<and> candidate ex_b q u) \<and> [ex_b, ex_c] \<noteq> [] \<longrightarrow>
              (\<exists>t. tr_CompletionTime (last [ex_b, ex_c]) = Some t \<and>
                 (\<forall>q u. q \<in> set [ex_b, ex_c] \<and> tr_CompletionTime q = Some u \<longrightarrow> t \<le> u) \<and>
                 ge_completed (out ! 1) = taskRef (tr_Labels (last [ex_b, ex_c])) \<and>
                 ge_gap (out ! 1) = Milliseconds (Sub (tr_CreationTimestamp ex_b) t) \<and>
                 (tr_Name (last [ex_b, ex_c]) \<noteq> tr_Name ex_b \<longrightarrow>
                    After t (tr_CreationTimestamp ex_b) \<and> ge_gap (out ! 1) \<le> 0))"
      unfolding tr by blast
    from br nc ne(1) obtain t where t: "tr_CompletionTime (last [ex_b, ex_c]) = Some t"
      "ge_completed (out ! 1) = taskRef (tr_Labels (last [ex_b, ex_c]))"
      "ge_gap (out ! 1) = Milliseconds (Sub (tr_CreationTimestamp ex_b) t)" by blast
    from t(1) have "t = 31000000000" by (simp add: ex_defs ex_abcd_defs)
    then show ?thesis using o up t(2,3) by (simp add: ex_defs ex_abcd_defs eval_defs)
  qed
  show ?thesis using A B C by blast
qed

text \<open>
  The failing input of claim C1. In the run of \<open>a\<close> (never completed), \<open>b\<close> and \<open>c\<close>, the
  task run \<open>b\<close> is not the first, is not parallel, and no other task run completed by
  its creation; its gap is not measured from the run's creation time (which would give
  10500 ms) but from the completion of \<open>c\<close>, twenty seconds after \<open>b\<close> was created, and
  \<open>c\<close>, in the same position, is measured from its own completion.
\<close>

theorem chained_step_failing_input:
  "sortTaskRunsForGapCalculations (ex_client [ex_a, ex_b, ex_c] (ex_doneRun [''a'', ''b'', ''c'']))
     (ex_doneRun [''a'', ''b'', ''c'']) = ([ex_a, ex_b, ex_c], [ex_b, ex_c], False)
   \<and> runDone (ex_doneRun [''a'', ''b'', ''c''])
   \<and> tr_CompletionTime ex_a = None
   \<and> \<not> (\<exists>q u. q \<in> set [ex_b, ex_c] \<and> candidate ex_b q u)
   \<and> calculateGaps ex_rt (ex_doneRun [''a'', ''b'', ''c'']) [ex_a, ex_b, ex_c] [ex_b, ex_c] =
       Inr [ex_entry ''run'' ''a'' 500, ex_entry ''c'' ''b'' (- 20000), ex_entry ''c'' ''c'' (- 10000)]
   \<and> pipelineRunPipelineRef ex_rt (ex_doneRun [''a'', ''b'', ''c'']) = ''run''
   \<and> Milliseconds (Sub (tr_CreationTimestamp ex_b) (pr_CreationTimestamp (ex_doneRun [''a'', ''b'', ''c'']))) = 10500
   \<and> ge_completed (ex_entry ''c'' ''b'' (- 20000)) \<noteq> ''run''
   \<and> ge_gap (ex_entry ''c'' ''b'' (- 20000)) \<noteq> 10500"
proof -
  have nc: "\<not> (\<exists>q u. q \<in> set [ex_b, ex_c] \<and> candidate ex_b q u)"
    by (auto simp: candidate_def ex_defs ex_abcd_defs eval_defs)
  have v: "pipelineRunPipelineRef ex_rt (ex_doneRun [''a'', ''b'', ''c'']) = ''run''"
    "Milliseconds (Sub (tr_CreationTimestamp ex_b) (pr_CreationTimestamp (ex_doneRun [''a'', ''b'', ''c'']))) = 10500"
    "tr_CompletionTime ex_a = None"
    by (simp_all add: ex_defs ex_abcd_defs eval_defs)
  show ?thesis
    using ex_sort_abc ex_doneRun_done nc ex_gaps_abc v by (simp add: ex_entry_def)
qed

section \<open>The noise filter\<close>



section \<open>The overhead reconciler\<close>

lemma accumulateGaps_abort:
  assumes "kidRef \<in> set (pr_ChildReferences pr)"
    and "ref_Kind kidRef = ''TaskRun''"
    and "getTaskRun oc (pr_Namespace pr) (ref_Name kidRef) = Inl err"
  shows "accumulateGaps rt oc pr = Inr (0, [], False)"
proof -
  have "fetchKids oc (pr_Namespace pr) (pr_ChildReferences pr) [] [] = None"
    using assms by (rule fetchKids_fail)
  then have "sortTaskRunsForGapCalculations oc pr = ([], [], True)"
    by (simp add: sortTaskRunsForGapCalculations_def)
  then show ?thesis by (simp add: accumulateGaps_def)
qed

text \<open>
  Claim C8, amended. When the fetch of a task run referenced by a done run fails, with
  a not-found error or with any other error, the gap computation is aborted, and the
  reconciler returns no error, asks for no requeue and observes no metric.
\<close>

theorem gap_fetch_failure_aborts:
  assumes "getPipelineRun oc namespace name = Inr pr"
    and "runDone pr"
    and "kidRef \<in> set (pr_ChildReferences pr)"
    and "ref_Kind kidRef = ''TaskRun''"
    and "getTaskRun oc (pr_Namespace pr) (ref_Name kidRef) = Inl err"
  shows "accumulateGaps rt oc pr = Inr (0, [], False) \<and>
         (\<exists>r. ReconcileOverhead rt oc namespace name = Inr r \<and> res_err r = None \<and>
              \<not> res_Requeue r \<and> res_execution r = [] \<and> res_scheduling r = [] \<and>
              res_patched r = [])"
proof -
  have a: "accumulateGaps rt oc pr = Inr (0, [], False)"
    using assms(3,4,5) by (rule accumulateGaps_abort)
  have "ReconcileOverhead rt oc namespace name = Inr nothingDone"
    using assms(1,2) a by (simp add: ReconcileOverhead_def runDone_def Let_def)
  then show ?thesis using a by (simp add: nothingDone_def)
qed

text \<open>The run of the task run \<open>a\<close>, whose fetch is not found or times out.\<close>

theorem gap_fetch_failure_aborts_witness:
  "(\<exists>r. ReconcileOverhead ex_rt (ex_failingClient NotFound (ex_doneRun [''a''])) ''ns'' ''run'' = Inr r \<and>
        res_err r = None \<and> \<not> res_Requeue r \<and> res_execution r = [] \<and> res_scheduling r = [] \<and>
        res_patched r = [])
   \<and> (\<exists>r. ReconcileOverhead ex_rt (ex_failingClient (OtherError ''timeout'') (ex_doneRun [''a''])) ''ns'' ''run'' = Inr r \<and>
        res_err r = None \<and> \<not> res_Requeue r \<and> res_execution r = [] \<and> res_scheduling r = [] \<and>
        res_patched r = [])"
proof -
  let ?run = "ex_doneRun [''a'']"
  have 1: "getPipelineRun (ex_failingClient err ?run) ''ns'' ''run'' = Inr ?run" for err
    by (simp add: ex_failingClient_def ex_defs)
  have 3: "ex_ref ''a'' \<in> set (pr_ChildReferences ?run)" by (simp add: ex_defs)
  have 4: "ref_Kind (ex_ref ''a'') = ''TaskRun''" by (simp add: ex_defs)
  have 5: "getTaskRun (ex_failingClient err ?run) (pr_Namespace ?run) (ref_Name (ex_ref ''a'')) = Inl err" for err
    by (simp add: ex_failingClient_def)
  show ?thesis
    using gap_fetch_failure_aborts [where rt = ex_rt,
          OF 1 [of NotFound] ex_doneRun_done 3 4 5 [of NotFound], THEN conjunct2]
      gap_fetch_failure_aborts [where rt = ex_rt,
          OF 1 [of "OtherError ''timeout''"] ex_doneRun_done 3 4 5 [of "OtherError ''timeout''"],
          THEN conjunct2]
    by (rule conjI)
qed

text \<open>
  Claim C8 as stated fails. The fetch of the task run \<open>a\<close> fails with an error that is
  not a not-found error; the reconciler returns a nil error and does not ask for a
  requeue, so nothing is surfaced to the caller as retryable.
\<close>

theorem transient_fetch_failure_counterexample:
  "getTaskRun (ex_failingClient (OtherError ''timeout'') (ex_doneRun [''a''])) ''ns'' ''a'' =
     Inl (OtherError ''timeout'')
   \<and> \<not> IsNotFound (OtherError ''timeout'')
   \<and> ReconcileOverhead ex_rt (ex_failingClient (OtherError ''timeout'') (ex_doneRun [''a''])) ''ns'' ''run'' =
       Inr \<lparr>res_Requeue = False, res_err = None, res_execution = [], res_scheduling = [],
            res_patched = []\<rparr>"
  by (simp add: ReconcileOverhead_def accumulateGaps_def skipPipelineRun_def
      sortTaskRunsForGapCalculations_def nothingDone_def IsNotFound_def ex_failingClient_def
      ex_defs eval_defs Let_def)

lemma accumulateGaps_found:
  assumes "\<not> skipPipelineRun pr"
    and "\<forall>r \<in> set (pr_ChildReferences pr). ref_Kind r = ''TaskRun'' \<longrightarrow>
           (\<exists>kid. getTaskRun oc (pr_Namespace pr) (ref_Name r) = Inr kid)"
  shows "\<exists>gapTotal gapEntries. accumulateGaps rt oc pr = Inr (gapTotal, gapEntries, True)"
proof -
  obtain a b where f: "fetchKids oc (pr_Namespace pr) (pr_ChildReferences pr) [] [] = Some (a, b)"
    using fetchKids_ok[OF assms(2), of "[]" "[]"] by auto
  define bc where "bc = SliceStable createdBefore a"
  define bk where "bk = SliceStable completedAfter b"
  have srt: "sortTaskRunsForGapCalculations oc pr = (bc, bk, False)"
    using f by (simp add: sortTaskRunsForGapCalculations_def bc_def bk_def)
  have "\<forall>x \<in> set bk. completed x" using srt by (rule sort_completed)
  then obtain out where "calculateGaps rt pr bc bk = Inr out"
    using calculateGaps_total by blast
  then show ?thesis using assms(1) srt by (simp add: accumulateGaps_def)
qed

text \<open>
  Claim C10. \<open>skipPipelineRun\<close> does not read the start time of the run: it answers
  the same whatever the start time is. For a done run that is fetched, is not skipped
  and whose task runs are all fetched, \<open>ReconcileOverhead\<close> panics with a nil pointer
  dereference when the start time is nil, and returns when it is not; so does
  \<open>calculateScheduledDurationPipelineRun\<close>, for any run.
\<close>

theorem start_time_unguarded:
  "skipPipelineRun (pr\<lparr>pr_StartTime := startTime\<rparr>) = skipPipelineRun pr
   \<and> (getPipelineRun oc namespace name = Inr pr \<and> runDone pr \<and> \<not> skipPipelineRun pr \<and>
       (\<forall>r \<in> set (pr_ChildReferences pr). ref_Kind r = ''TaskRun'' \<longrightarrow>
           (\<exists>kid. getTaskRun oc (pr_Namespace pr) (ref_Name r) = Inr kid)) \<longrightarrow>
         (pr_StartTime pr = None \<longrightarrow>
            ReconcileOverhead rt oc namespace name = Inl NilPointerDereference) \<and>
         (pr_StartTime pr \<noteq> None \<longrightarrow>
            (\<exists>r. ReconcileOverhead rt oc namespace name = Inr r)))
   \<and> (pr_StartTime pr = None \<longrightarrow>
         calculateScheduledDurationPipelineRun pr = Inl NilPointerDereference)
   \<and> (pr_StartTime pr \<noteq> None \<longrightarrow> (\<exists>seconds. calculateScheduledDurationPipelineRun pr = Inr seconds))"
proof (intro conjI impI)
  show "skipPipelineRun (pr\<lparr>pr_StartTime := startTime\<rparr>) = skipPipelineRun pr"
    by (simp add: skipPipelineRun_def)
next
  assume h: "getPipelineRun oc namespace name = Inr pr \<and> runDone pr \<and> \<not> skipPipelineRun pr \<and>
       (\<forall>r \<in> set (pr_ChildReferences pr). ref_Kind r = ''TaskRun'' \<longrightarrow>
           (\<exists>kid. getTaskRun oc (pr_Namespace pr) (ref_Name r) = Inr kid))"
    and n: "pr_StartTime pr = None"
  from h obtain g es where a: "accumulateGaps rt oc pr = Inr (g, es, True)"
    using accumulateGaps_found by blast
  from h obtain ct where ct: "pr_CompletionTime pr = Some ct"
    by (auto simp: skipPipelineRun_def split: if_splits)
  show "ReconcileOverhead rt oc namespace name = Inl NilPointerDereference"
    using h a ct n by (simp add: ReconcileOverhead_def runDone_def Let_def)
next
  assume h: "getPipelineRun oc namespace name = Inr pr \<and> runDone pr \<and> \<not> skipPipelineRun pr \<and>
       (\<forall>r \<in> set (pr_ChildReferences pr). ref_Kind r = ''TaskRun'' \<longrightarrow>
           (\<exists>kid. getTaskRun oc (pr_Namespace pr) (ref_Name r) = Inr kid))"
    and n: "pr_StartTime pr \<noteq> None"
  from h obtain g es where a: "accumulateGaps rt oc pr = Inr (g, es, True)"
    using accumulateGaps_found by blast
  from h obtain ct where ct: "pr_CompletionTime pr = Some ct"
    by (auto simp: skipPipelineRun_def split: if_splits)
  from n obtain st where st: "pr_StartTime pr = Some st" by auto
  show "\<exists>r. ReconcileOverhead rt oc namespace name = Inr r"
    using h a ct st by (simp add: ReconcileOverhead_def runDone_def Let_def)
next
  assume "pr_StartTime pr = None"
  then show "calculateScheduledDurationPipelineRun pr = Inl NilPointerDereference"
    by (simp add: calculateScheduledDurationPipelineRun_def)
next
  assume "pr_StartTime pr \<noteq> None"
  then obtain st where "pr_StartTime pr = Some st" by auto
  then have "calculateScheduledDurationPipelineRun pr =
      Inr (of_int (calculateScheduledDuration (pr_CreationTimestamp pr) st) / 1000)"
    by (simp add: calculateScheduledDurationPipelineRun_def)
  then show "\<exists>seconds. calculateScheduledDurationPipelineRun pr = Inr seconds"
    by (rule exI)
qed

text \<open>
  The done run of the task run \<open>p\<close>: without a start time the reconciler panics; with
  the start time of one second it observes both overheads, over a total of 399000 ms.
\<close>

theorem start_time_unguarded_witness:
  "\<not> skipPipelineRun ((ex_doneRun [''p''])\<lparr>pr_StartTime := None\<rparr>)
   \<and> ReconcileOverhead ex_rt
       (ex_client [ex_p] ((ex_doneRun [''p''])\<lparr>pr_StartTime := None\<rparr>)) ''ns'' ''run'' =
       Inl NilPointerDereference
   \<and> calculateScheduledDurationPipelineRun ((ex_doneRun [''p''])\<lparr>pr_StartTime := None\<rparr>) =
       Inl NilPointerDereference
   \<and> ReconcileOverhead ex_rt (ex_client [ex_p] (ex_doneRun [''p''])) ''ns'' ''run'' =
       Inr \<lparr>res_Requeue = False, res_err = None,
            res_execution = [\<lparr>obs_namespace = ''ns'', obs_status = ''succeded'',
                               obs_numerator = 500, obs_denominator = 399000\<rparr>],
            res_scheduling = [\<lparr>obs_namespace = ''ns'', obs_status = ''succeded'',
                                obs_numerator = 500, obs_denominator = 399000\<rparr>],
            res_patched = []\<rparr>"
proof -
  let ?run = "(ex_doneRun [''p''])\<lparr>pr_StartTime := None\<rparr>"
  let ?oc = "ex_client [ex_p] ?run"
  have sk: "\<not> skipPipelineRun ?run"
    by (simp add: skipPipelineRun_def ex_defs eval_defs)
  have h: "getPipelineRun ?oc ''ns'' ''run'' = Inr ?run \<and> runDone ?run \<and> \<not> skipPipelineRun ?run \<and>
       (\<forall>r \<in> set (pr_ChildReferences ?run). ref_Kind r = ''TaskRun'' \<longrightarrow>
           (\<exists>kid. getTaskRun ?oc (pr_Namespace ?run) (ref_Name r) = Inr kid))"
    using sk by (simp add: ex_defs eval_defs)
  have n: "pr_StartTime ?run = None" by simp
  note t = start_time_unguarded [where pr = ?run and oc = ?oc and namespace = "''ns''"
      and name = "''run''" and rt = ex_rt and startTime = None]
  have 1: "ReconcileOverhead ex_rt ?oc ''ns'' ''run'' = Inl NilPointerDereference"
    using t [THEN conjunct2, THEN conjunct1] h n by blast
  have 2: "calculateScheduledDurationPipelineRun ?run = Inl NilPointerDereference"
    using t [THEN conjunct2, THEN conjunct2, THEN conjunct1] n by blast
  have 3: "ReconcileOverhead ex_rt (ex_client [ex_p] (ex_doneRun [''p''])) ''ns'' ''run'' =
       Inr \<lparr>res_Requeue = False, res_err = None,
            res_execution = [\<lparr>obs_namespace = ''ns'', obs_status = ''succeded'',
                               obs_numerator = 500, obs_denominator = 399000\<rparr>],
            res_scheduling = [\<lparr>obs_namespace = ''ns'', obs_status = ''succeded'',
                                obs_numerator = 500, obs_denominator = 399000\<rparr>],
            res_patched = []\<rparr>"
    by (simp add: ReconcileOverhead_def accumulateGaps_def skipPipelineRun_def sort_defs
        gap_defs nothingDone_def recordOverhead_def filter_overhead_def threshold_def
        DEFAULT_THRESHOLD_def FILTER_THRESHOLD_def calculateScheduledDuration_def IsZero_def
        ex_defs eval_defs)
  show ?thesis using sk 1 2 3 by simp
qed

section \<open>The deadlock tracker\<close>

lemma gauge_snoc: "gauge (calls @ [call]) = applyCall (gauge calls) call"
  by (simp add: gauge_def)

lemma gauge_zeroed:
  "\<forall>z \<in> set zs. \<exists>n. z = ZeroCollector n \<Longrightarrow> ZeroCollector ns \<in> set zs \<Longrightarrow>
   gauge (calls @ zs) ns = 0"
proof (induction zs rule: rev_induct)
  case Nil
  then show ?case by simp
next
  case (snoc z zs)
  from snoc.prems(1) obtain n where z: "z = ZeroCollector n" by auto
  have g: "gauge (calls @ zs @ [z]) = applyCall (gauge (calls @ zs)) z"
    using gauge_snoc[of "calls @ zs" z] by simp
  show ?case
  proof (cases "n = ns")
    case True
    then show ?thesis using g z by simp
  next
    case False
    with snoc.prems(2) z have "ZeroCollector ns \<in> set zs" by auto
    moreover from snoc.prems(1) have "\<forall>z \<in> set zs. \<exists>n. z = ZeroCollector n" by simp
    ultimately have "gauge (calls @ zs) ns = 0" by (rule snoc.IH[rotated])
    then show ?thesis using g z False by simp
  qed
qed

lemma zeroOut_calls:
  "\<exists>zs. zeroOutPriorHitNamespacesThatAreNowEmpty collector lastScan currentScan = collector @ zs \<and>
        set zs = {ZeroCollector n | n. n \<in> fst ` set lastScan \<and> map_of currentScan n = None}"
proof (induction lastScan arbitrary: collector)
  case Nil
  then show ?case by simp
next
  case (Cons entry lastScan)
  obtain ns objMap where e: "entry = (ns, objMap)" by (cases entry)
  show ?case
  proof (cases "map_of currentScan ns = None")
    case True
    from Cons.IH[of "collector @ [ZeroCollector ns]"] obtain zs where
      zs: "zeroOutPriorHitNamespacesThatAreNowEmpty (collector @ [ZeroCollector ns]) lastScan currentScan =
             (collector @ [ZeroCollector ns]) @ zs"
        "set zs = {ZeroCollector n | n. n \<in> fst ` set lastScan \<and> map_of currentScan n = None}"
      by blast
    have "set (ZeroCollector ns # zs) =
        {ZeroCollector n | n. n \<in> fst ` set (entry # lastScan) \<and> map_of currentScan n = None}"
      using zs(2) True e by auto
    moreover have "zeroOutPriorHitNamespacesThatAreNowEmpty collector (entry # lastScan) currentScan =
        collector @ (ZeroCollector ns # zs)"
      using zs(1) True e by simp
    ultimately show ?thesis by blast
  next
    case False
    from Cons.IH[of collector] obtain zs where
      zs: "zeroOutPriorHitNamespacesThatAreNowEmpty collector lastScan currentScan = collector @ zs"
        "set zs = {ZeroCollector n | n. n \<in> fst ` set lastScan \<and> map_of currentScan n = None}"
      by blast
    have "set zs = {ZeroCollector n | n. n \<in> fst ` set (entry # lastScan) \<and> map_of currentScan n = None}"
      using zs(2) False e by auto
    moreover have "zeroOutPriorHitNamespacesThatAreNowEmpty collector (entry # lastScan) currentScan =
        collector @ zs"
      using zs(1) False e by auto
    ultimately show ?thesis by blast
  qed
qed

lemma set_copyObjMap_aux: "set (fold (\<lambda>tr newPrMap. List.insert tr newPrMap) trMap acc) = set trMap \<union> set acc"
  by (induction trMap arbitrary: acc) auto

lemma set_copyObjMap: "set (copyObjMap trMap) = set trMap"
  by (simp add: copyObjMap_def set_copyObjMap_aux)

lemma keys_fold_update:
  "fst ` set (fold (\<lambda>(ns, trMap) cacheCopy. AList.update ns (f trMap) cacheCopy) m acc) =
     fst ` set m \<union> fst ` set acc"
proof (induction m arbitrary: acc)
  case Nil
  then show ?case by simp
next
  case (Cons entry m)
  obtain ns trMap where e: "entry = (ns, trMap)" by (cases entry)
  show ?case using Cons.IH[of "AList.update ns (f trMap) acc"] e
    by (auto simp: dom_update)
qed

lemma map_of_fold_update:
  "distinct (map fst m) \<Longrightarrow>
   map_of (fold (\<lambda>(ns, trMap) cacheCopy. AList.update ns (f trMap) cacheCopy) m acc) k =
     (case map_of m k of None \<Rightarrow> map_of acc k | Some v \<Rightarrow> Some (f v))"
proof (induction m arbitrary: acc)
  case Nil
  then show ?case by simp
next
  case (Cons entry m)
  obtain ns trMap where e: "entry = (ns, trMap)" by (cases entry)
  from Cons.prems e have d: "distinct (map fst m)" and nin: "ns \<notin> fst ` set m" by auto
  have IH: "map_of (fold (\<lambda>(ns, trMap) cacheCopy. AList.update ns (f trMap) cacheCopy) m
               (AList.update ns (f trMap) acc)) k =
     (case map_of m k of None \<Rightarrow> map_of (AList.update ns (f trMap) acc) k | Some v \<Rightarrow> Some (f v))"
    using d by (rule Cons.IH)
  show ?case
  proof (cases "k = ns")
    case True
    with nin have "map_of m k = None" by (simp add: map_of_eq_None_iff)
    then show ?thesis using IH True e by (simp add: update_conv')
  next
    case False
    then show ?thesis using IH e by (simp add: update_conv' split: option.split)
  qed
qed

lemma buildLastScanCopy_copy:
  "(map_of (snd (buildLastScanCopy innerReset collector m)) ns = None \<longleftrightarrow> map_of m ns = None)
   \<and> (distinct (map fst m) \<longrightarrow>
        set (lookupScan (snd (buildLastScanCopy innerReset collector m)) ns) = set (lookupScan m ns))"
proof
  have "fst ` set (snd (buildLastScanCopy innerReset collector m)) = fst ` set m"
    by (simp add: buildLastScanCopy_def Let_def keys_fold_update)
  then show "map_of (snd (buildLastScanCopy innerReset collector m)) ns = None \<longleftrightarrow> map_of m ns = None"
    by (simp add: map_of_eq_None_iff)
next
  show "distinct (map fst m) \<longrightarrow>
        set (lookupScan (snd (buildLastScanCopy innerReset collector m)) ns) = set (lookupScan m ns)"
  proof
    assume "distinct (map fst m)"
    then have "map_of (snd (buildLastScanCopy innerReset collector m)) ns =
        (case map_of m ns of None \<Rightarrow> None | Some v \<Rightarrow> Some (copyObjMap v))"
      by (simp add: buildLastScanCopy_def Let_def map_of_fold_update split: option.split)
    then show "set (lookupScan (snd (buildLastScanCopy innerReset collector m)) ns) = set (lookupScan m ns)"
      by (simp add: lookupScan_def set_copyObjMap split: option.splits)
  qed
qed

lemma PerformDeadlockDetection_collector:
  "ns \<notin> set (dt_filter d) \<Longrightarrow>
   dt_collector (PerformDeadlockDetection d name ns deadlocked) =
     dt_collector d @
       (if deadlocked \<and> name \<in> set (lookupScan (dt_lastScan d) ns) then [IncCollector ns]
        else if ns \<in> set (dt_flaggedNamespaces d) then []
        else [ZeroCollector ns])"
  by (simp add: PerformDeadlockDetection_def Let_def)

lemma PerformDeadlockDetection_flagged:
  "ns \<notin> set (dt_filter d) \<Longrightarrow>
   dt_flaggedNamespaces (PerformDeadlockDetection d name ns deadlocked) =
     (if deadlocked \<and> name \<in> set (lookupScan (dt_lastScan d) ns)
      then List.insert ns (dt_flaggedNamespaces d)
      else dt_flaggedNamespaces d)"
  by (simp add: PerformDeadlockDetection_def Let_def)

lemma PerformDeadlockDetection_lastScan:
  "dt_lastScan (PerformDeadlockDetection d name ns deadlocked) = dt_lastScan d"
  by (simp add: PerformDeadlockDetection_def Let_def)

lemma PerformDeadlockDetection_currentScan:
  "ns \<notin> set (dt_filter d) \<Longrightarrow>
   dt_currentScan (PerformDeadlockDetection d name ns deadlocked) =
     (if deadlocked
      then AList.update ns (List.insert name (lookupScan (dt_currentScan d) ns))
             (if map_of (dt_currentScan d) ns = None
              then AList.update ns (lookupScan (dt_currentScan d) ns) (dt_currentScan d)
              else dt_currentScan d)
      else if map_of (dt_currentScan d) ns = None
      then AList.update ns (lookupScan (dt_currentScan d) ns) (dt_currentScan d)
      else dt_currentScan d)"
  by (cases "map_of (dt_currentScan d) ns"; cases deadlocked)
     (simp_all add: PerformDeadlockDetection_def Let_def)

lemma PerformDeadlockDetection_recorded:
  "ns \<notin> set (dt_filter d) \<Longrightarrow>
   name \<in> set (lookupScan (dt_currentScan (PerformDeadlockDetection d name ns deadlocked)) ns) \<longleftrightarrow>
     deadlocked \<or> name \<in> set (lookupScan (dt_currentScan d) ns)"
  by (auto simp: PerformDeadlockDetection_currentScan lookupScan_def update_conv'
      split: option.splits)

lemma PerformDeadlockDetection_distinct:
  "ns \<notin> set (dt_filter d) \<Longrightarrow> distinct (map fst (dt_currentScan d)) \<Longrightarrow>
   distinct (map fst (dt_currentScan (PerformDeadlockDetection d name ns deadlocked)))"
  by (simp add: PerformDeadlockDetection_currentScan distinct_update)

text \<open>
  One poll of the identity \<open>name\<close> in a namespace \<open>ns\<close> that is not filtered, with
  \<open>deadlocked\<close> the answer of the liveness predicate.
  \<^item> Unless the identity fails now and is in the previous scan, the poll does not call
    \<open>IncCollector\<close> and leaves the flagged namespaces as they are: it makes no call, or
    the one call \<open>ZeroCollector ns\<close>, and the gauge of \<open>ns\<close> does not grow.
  \<^item> When the identity fails now and is in the previous scan, the poll makes exactly
    the one call \<open>IncCollector ns\<close>, so the gauge of \<open>ns\<close> grows by one, and \<open>ns\<close>, and
    nothing else, is added to the flagged namespaces.
  \<^item> After the poll the identity is in the current scan exactly when it fails now or
    was there already; the previous scan is unchanged; and the copy that
    \<open>buildLastScanCopy\<close> makes of the current scan holds the identity exactly when
    the current scan does.
\<close>

lemma PerformDeadlockDetection_poll:
  assumes "ns \<notin> set (dt_filter d)"
  shows "(let d' = PerformDeadlockDetection d name ns deadlocked;
              hitLastTime = (name \<in> set (lookupScan (dt_lastScan d) ns))
          in (\<not> (deadlocked \<and> hitLastTime) \<longrightarrow>
                dt_flaggedNamespaces d' = dt_flaggedNamespaces d \<and>
                (dt_collector d' = dt_collector d \<or>
                 dt_collector d' = dt_collector d @ [ZeroCollector ns]) \<and>
                gauge (dt_collector d') ns \<le> gauge (dt_collector d) ns)
           \<and> (deadlocked \<and> hitLastTime \<longrightarrow>
                dt_collector d' = dt_collector d @ [IncCollector ns] \<and>
                gauge (dt_collector d') ns = Suc (gauge (dt_collector d) ns) \<and>
                set (dt_flaggedNamespaces d') = insert ns (set (dt_flaggedNamespaces d)))
           \<and> (name \<in> set (lookupScan (dt_currentScan d') ns) \<longleftrightarrow>
                deadlocked \<or> name \<in> set (lookupScan (dt_currentScan d) ns))
           \<and> dt_lastScan d' = dt_lastScan d
           \<and> (distinct (map fst (dt_currentScan d)) \<longrightarrow>
                distinct (map fst (dt_currentScan d')) \<and>
                (\<forall>innerReset collector.
                   name \<in> set (lookupScan (snd (buildLastScanCopy innerReset collector (dt_currentScan d'))) ns)
                     \<longleftrightarrow> name \<in> set (lookupScan (dt_currentScan d') ns))))"
proof -
  let ?d = "PerformDeadlockDetection d name ns deadlocked"
  let ?hit = "name \<in> set (lookupScan (dt_lastScan d) ns)"
  note c = PerformDeadlockDetection_collector[OF assms, of name deadlocked]
  note f = PerformDeadlockDetection_flagged[OF assms, of name deadlocked]
  have 1: "dt_flaggedNamespaces ?d = dt_flaggedNamespaces d \<and>
           (dt_collector ?d = dt_collector d \<or> dt_collector ?d = dt_collector d @ [ZeroCollector ns]) \<and>
           gauge (dt_collector ?d) ns \<le> gauge (dt_collector d) ns"
    if "\<not> (deadlocked \<and> ?hit)"
  proof (cases "ns \<in> set (dt_flaggedNamespaces d)")
    case True
    with that c f show ?thesis by auto
  next
    case False
    with that c have "dt_collector ?d = dt_collector d @ [ZeroCollector ns]" by simp
    moreover from this have "gauge (dt_collector ?d) ns = 0" by (simp add: gauge_snoc)
    moreover from that f have "dt_flaggedNamespaces ?d = dt_flaggedNamespaces d" by auto
    ultimately show ?thesis by simp
  qed
  have 2: "dt_collector ?d = dt_collector d @ [IncCollector ns] \<and>
           gauge (dt_collector ?d) ns = Suc (gauge (dt_collector d) ns) \<and>
           set (dt_flaggedNamespaces ?d) = insert ns (set (dt_flaggedNamespaces d))"
    if "deadlocked \<and> ?hit"
  proof -
    from that c have "dt_collector ?d = dt_collector d @ [IncCollector ns]" by simp
    moreover from this have "gauge (dt_collector ?d) ns = Suc (gauge (dt_collector d) ns)"
      by (simp add: gauge_snoc)
    ultimately show ?thesis using that f by simp
  qed
  have 3: "name \<in> set (lookupScan (dt_currentScan ?d) ns) \<longleftrightarrow>
             deadlocked \<or> name \<in> set (lookupScan (dt_currentScan d) ns)"
    using assms by (rule PerformDeadlockDetection_recorded)
  have 4: "dt_lastScan ?d = dt_lastScan d"
    by (rule PerformDeadlockDetection_lastScan)
  have 5: "distinct (map fst (dt_currentScan ?d)) \<and>
           (\<forall>innerReset collector.
              name \<in> set (lookupScan (snd (buildLastScanCopy innerReset collector (dt_currentScan ?d))) ns)
                \<longleftrightarrow> name \<in> set (lookupScan (dt_currentScan ?d) ns))"
    if "distinct (map fst (dt_currentScan d))"
  proof -
    have "distinct (map fst (dt_currentScan ?d))"
      using assms that by (rule PerformDeadlockDetection_distinct)
    then show ?thesis using buildLastScanCopy_copy by simp
  qed
  show ?thesis unfolding Let_def using 1 2 3 4 5 by blast
qed

text \<open>
  Claim C3. At the end of a polling cycle, a namespace with an entry in the previous
  scan and none in the current scan has its gauge at zero, is not among the flagged
  namespaces, and has no entry in the new previous scan. The source's
  \<open>zeroOutPriorHitNamespacesThatAreNowEmpty\<close> alone, from any collector, calls
  \<open>ZeroCollector\<close> for that namespace and leaves its gauge at zero.
\<close>

theorem vanished_namespace_cleared:
  assumes "ns \<in> fst ` set (dt_lastScan d)" and "map_of (dt_currentScan d) ns = None"
  shows "gauge (dt_collector (endOfCycle innerReset d)) ns = 0
       \<and> ns \<notin> set (dt_flaggedNamespaces (endOfCycle innerReset d))
       \<and> map_of (dt_lastScan (endOfCycle innerReset d)) ns = None
       \<and> (\<exists>zs. zeroOutPriorHitNamespacesThatAreNowEmpty collector (dt_lastScan d) (dt_currentScan d) =
                 collector @ zs \<and>
               ZeroCollector ns \<in> set zs \<and> gauge (collector @ zs) ns = 0)"
proof -
  have z: "\<exists>zs. zeroOutPriorHitNamespacesThatAreNowEmpty c (dt_lastScan d) (dt_currentScan d) = c @ zs \<and>
               ZeroCollector ns \<in> set zs \<and> gauge (c @ zs) ns = 0" for c
  proof -
    from zeroOut_calls[of c "dt_lastScan d" "dt_currentScan d"] obtain zs where
      zs: "zeroOutPriorHitNamespacesThatAreNowEmpty c (dt_lastScan d) (dt_currentScan d) = c @ zs"
        "set zs = {ZeroCollector n | n. n \<in> fst ` set (dt_lastScan d) \<and> map_of (dt_currentScan d) n = None}"
      by blast
    from zs(2) assms have m: "ZeroCollector ns \<in> set zs" by blast
    from zs(2) have "\<forall>z \<in> set zs. \<exists>n. z = ZeroCollector n" by blast
    then have "gauge (c @ zs) ns = 0" using m by (rule gauge_zeroed)
    with zs(1) m show ?thesis by blast
  qed
  obtain c' cacheCopy where b: "buildLastScanCopy innerReset (dt_collector d) (dt_currentScan d) = (c', cacheCopy)"
    by (cases "buildLastScanCopy innerReset (dt_collector d) (dt_currentScan d)")
  from z[of c'] have g: "gauge (zeroOutPriorHitNamespacesThatAreNowEmpty c' (dt_lastScan d) (dt_currentScan d)) ns = 0"
    by auto
  have l: "map_of cacheCopy ns = None"
    using buildLastScanCopy_copy[of innerReset "dt_collector d" "dt_currentScan d" ns] b assms(2)
    by simp
  have "gauge (dt_collector (endOfCycle innerReset d)) ns = 0"
    using b g by (simp add: endOfCycle_def)
  moreover have "ns \<notin> set (dt_flaggedNamespaces (endOfCycle innerReset d))"
    using b assms(2) by (simp add: endOfCycle_def)
  moreover have "map_of (dt_lastScan (endOfCycle innerReset d)) ns = None"
    using b l by (simp add: endOfCycle_def)
  ultimately show ?thesis using z[of collector] by blast
qed

text \<open>
  The namespace \<open>old\<close>, flagged and counted in the previous scan, is not polled in the
  current one: the cycle ends with its gauge zeroed and only \<open>ns\<close> flagged.
\<close>

theorem vanished_namespace_cleared_witness:
  "endOfCycle (\<lambda>calls keys. calls)
     (ex_tracker [(''old'', [''x''])] [(''ns'', [])] [''old'', ''ns''] [IncCollector ''old'']) =
     ex_tracker [(''ns'', [])] [(''ns'', [])] [''ns''] [IncCollector ''old'', ZeroCollector ''old'']
   \<and> gauge [IncCollector ''old''] ''old'' = 1
   \<and> gauge [IncCollector ''old'', ZeroCollector ''old''] ''old'' = 0"
proof -
  let ?t = "ex_tracker [(''old'', [''x''])] [(''ns'', [])] [''old'', ''ns''] [IncCollector ''old'']"
  have 1: "''old'' \<in> fst ` set (dt_lastScan ?t)" by (simp add: ex_tracker_def)
  have 2: "map_of (dt_currentScan ?t) ''old'' = None" by (simp add: ex_tracker_def)
  have e: "endOfCycle (\<lambda>calls keys. calls) ?t =
     ex_tracker [(''ns'', [])] [(''ns'', [])] [''ns''] [IncCollector ''old'', ZeroCollector ''old'']"
    by (simp add: endOfCycle_def buildLastScanCopy_def copyObjMap_def ex_tracker_def)
  from vanished_namespace_cleared [OF 1 2, of "\<lambda>calls keys. calls" "[]"]
  have "gauge (dt_collector (endOfCycle (\<lambda>calls keys. calls) ?t)) ''old'' = 0" by simp
  then have 3: "gauge [IncCollector ''old'', ZeroCollector ''old''] ''old'' = 0"
    unfolding e by (simp add: ex_tracker_def)
  have 4: "gauge [IncCollector ''old''] ''old'' = 1" by (simp add: gauge_def)
  show ?thesis using e 3 4 by simp
qed

section \<open>Two consecutive polling cycles\<close>

lemma PerformDeadlockDetection_filter:
  "dt_filter (PerformDeadlockDetection d name ns deadlocked) = dt_filter d"
  by (simp add: PerformDeadlockDetection_def Let_def)

lemma PerformDeadlockDetection_filtered:
  "ns \<in> set (dt_filter d) \<Longrightarrow> PerformDeadlockDetection d name ns deadlocked = d"
  by (simp add: PerformDeadlockDetection_def)

lemma pollAll_filter: "dt_filter (pollAll d polls) = dt_filter d"
  by (induction d polls rule: pollAll.induct) (simp_all add: PerformDeadlockDetection_filter)

lemma pollAll_lastScan: "dt_lastScan (pollAll d polls) = dt_lastScan d"
  by (induction d polls rule: pollAll.induct) (simp_all add: PerformDeadlockDetection_lastScan)

lemma poll_recorded:
  "name \<in> set (lookupScan (dt_currentScan (PerformDeadlockDetection d n s dl)) ns) \<longleftrightarrow>
     name \<in> set (lookupScan (dt_currentScan d) ns) \<or>
     (n = name \<and> s = ns \<and> dl \<and> ns \<notin> set (dt_filter d))"
proof (cases "s \<in> set (dt_filter d)")
  case True
  then show ?thesis by (auto simp: PerformDeadlockDetection_filtered)
next
  case False
  show ?thesis
  proof (cases "s = ns")
    case True
    then show ?thesis
      using False
      by (auto simp: PerformDeadlockDetection_currentScan lookupScan_def update_conv'
          split: option.splits)
  next
    case ne: False
    then show ?thesis
      using False
      by (auto simp: PerformDeadlockDetection_currentScan lookupScan_def update_conv'
          split: option.splits)
  qed
qed

lemma pollAll_recorded:
  "ns \<notin> set (dt_filter d) \<Longrightarrow>
   name \<in> set (lookupScan (dt_currentScan (pollAll d polls)) ns) \<longleftrightarrow>
     name \<in> set (lookupScan (dt_currentScan d) ns) \<or> (name, ns, True) \<in> set polls"
proof (induction d polls rule: pollAll.induct)
  case (1 d)
  then show ?case by simp
next
  case (2 d n s dl polls)
  have f: "ns \<notin> set (dt_filter (PerformDeadlockDetection d n s dl))"
    using "2.prems" by (simp add: PerformDeadlockDetection_filter)
  show ?case
    using "2.IH"[OF f] "2.prems" by (auto simp: poll_recorded)
qed

lemma poll_distinct:
  "distinct (map fst (dt_currentScan d)) \<Longrightarrow>
   distinct (map fst (dt_currentScan (PerformDeadlockDetection d n s dl)))"
  by (cases "s \<in> set (dt_filter d)")
     (simp_all add: PerformDeadlockDetection_filtered PerformDeadlockDetection_distinct)

lemma pollAll_distinct:
  "distinct (map fst (dt_currentScan d)) \<Longrightarrow> distinct (map fst (dt_currentScan (pollAll d polls)))"
  by (induction d polls rule: pollAll.induct) (simp_all add: poll_distinct)

lemma poll_flagged:
  "ns \<in> set (dt_flaggedNamespaces (PerformDeadlockDetection d n s dl)) \<longleftrightarrow>
     ns \<in> set (dt_flaggedNamespaces d) \<or>
     (s = ns \<and> ns \<notin> set (dt_filter d) \<and> dl \<and> n \<in> set (lookupScan (dt_lastScan d) ns))"
  by (cases "s \<in> set (dt_filter d)")
     (auto simp: PerformDeadlockDetection_filtered PerformDeadlockDetection_flagged)

lemma pollAll_flagged:
  "ns \<notin> set (dt_filter d) \<Longrightarrow>
   ns \<in> set (dt_flaggedNamespaces (pollAll d polls)) \<longleftrightarrow>
     ns \<in> set (dt_flaggedNamespaces d) \<or>
     filter (\<lambda>(n, s, dl). s = ns \<and> dl \<and> n \<in> set (lookupScan (dt_lastScan d) ns)) polls \<noteq> []"
proof (induction d polls rule: pollAll.induct)
  case (1 d)
  then show ?case by simp
next
  case (2 d n s dl polls)
  have f: "ns \<notin> set (dt_filter (PerformDeadlockDetection d n s dl))"
    using "2.prems" by (simp add: PerformDeadlockDetection_filter)
  show ?case
    using "2.IH"[OF f] "2.prems"
    by (auto simp: poll_flagged PerformDeadlockDetection_lastScan)
qed

lemma poll_flagged_present:
  "\<forall>s \<in> set (dt_flaggedNamespaces d). map_of (dt_currentScan d) s \<noteq> None \<Longrightarrow>
   \<forall>s \<in> set (dt_flaggedNamespaces (PerformDeadlockDetection d n ns dl)).
      map_of (dt_currentScan (PerformDeadlockDetection d n ns dl)) s \<noteq> None"
proof (cases "ns \<in> set (dt_filter d)")
  case True
  assume "\<forall>s \<in> set (dt_flaggedNamespaces d). map_of (dt_currentScan d) s \<noteq> None"
  then show ?thesis using True by (simp add: PerformDeadlockDetection_filtered)
next
  case False
  assume a: "\<forall>s \<in> set (dt_flaggedNamespaces d). map_of (dt_currentScan d) s \<noteq> None"
  have k: "map_of (dt_currentScan (PerformDeadlockDetection d n ns dl)) s \<noteq> None"
    if "s = ns \<or> map_of (dt_currentScan d) s \<noteq> None" for s
    using that False
    by (auto simp: PerformDeadlockDetection_currentScan update_conv')
  show ?thesis
  proof
    fix s
    assume "s \<in> set (dt_flaggedNamespaces (PerformDeadlockDetection d n ns dl))"
    then have "s = ns \<or> s \<in> set (dt_flaggedNamespaces d)"
      using False by (auto simp: PerformDeadlockDetection_flagged split: if_splits)
    then have "s = ns \<or> map_of (dt_currentScan d) s \<noteq> None" using a by blast
    then show "map_of (dt_currentScan (PerformDeadlockDetection d n ns dl)) s \<noteq> None"
      by (rule k)
  qed
qed

lemma pollAll_flagged_present:
  "\<forall>s \<in> set (dt_flaggedNamespaces d). map_of (dt_currentScan d) s \<noteq> None \<Longrightarrow>
   \<forall>s \<in> set (dt_flaggedNamespaces (pollAll d polls)). map_of (dt_currentScan (pollAll d polls)) s \<noteq> None"
proof (induction d polls rule: pollAll.induct)
  case (1 d)
  then show ?case by simp
next
  case (2 d n s dl polls)
  from poll_flagged_present[OF "2.prems"]
  have "\<forall>x \<in> set (dt_flaggedNamespaces (PerformDeadlockDetection d n s dl)).
      map_of (dt_currentScan (PerformDeadlockDetection d n s dl)) x \<noteq> None" .
  then show ?case using "2.IH" by simp
qed

lemma poll_incCalls:
  "incCalls ns (dt_collector (PerformDeadlockDetection d n s dl)) =
     incCalls ns (dt_collector d) +
     (if s = ns \<and> ns \<notin> set (dt_filter d) \<and> dl \<and> n \<in> set (lookupScan (dt_lastScan d) ns)
      then 1 else 0)"
  by (cases "s \<in> set (dt_filter d)")
     (auto simp: PerformDeadlockDetection_filtered PerformDeadlockDetection_collector incCalls_def)

lemma pollAll_incCalls:
  "ns \<notin> set (dt_filter d) \<Longrightarrow>
   incCalls ns (dt_collector (pollAll d polls)) =
     incCalls ns (dt_collector d) +
     length (filter (\<lambda>(n, s, dl). s = ns \<and> dl \<and> n \<in> set (lookupScan (dt_lastScan d) ns)) polls)"
proof (induction d polls rule: pollAll.induct)
  case (1 d)
  then show ?case by simp
next
  case (2 d n s dl polls)
  have f: "ns \<notin> set (dt_filter (PerformDeadlockDetection d n s dl))"
    using "2.prems" by (simp add: PerformDeadlockDetection_filter)
  show ?case
    using "2.IH"[OF f] "2.prems"
    by (simp add: poll_incCalls PerformDeadlockDetection_lastScan)
qed

lemma poll_gauge_other:
  "s \<noteq> ns \<Longrightarrow>
   gauge (dt_collector (PerformDeadlockDetection d n s dl)) ns = gauge (dt_collector d) ns"
  by (cases "s \<in> set (dt_filter d)")
     (simp_all add: PerformDeadlockDetection_filtered PerformDeadlockDetection_collector gauge_snoc)

lemma poll_gauge_zeroed:
  "ns \<notin> set (dt_filter d) \<Longrightarrow> ns \<notin> set (dt_flaggedNamespaces d) \<Longrightarrow>
   \<not> (dl \<and> n \<in> set (lookupScan (dt_lastScan d) ns)) \<Longrightarrow>
   gauge (dt_collector (PerformDeadlockDetection d n ns dl)) ns = 0"
  by (auto simp: PerformDeadlockDetection_collector gauge_snoc)

lemma pollAll_gauge_zeroed:
  "ns \<notin> set (dt_filter d) \<Longrightarrow> ns \<notin> set (dt_flaggedNamespaces d) \<Longrightarrow>
   filter (\<lambda>(n, s, dl). s = ns \<and> dl \<and> n \<in> set (lookupScan (dt_lastScan d) ns)) polls = [] \<Longrightarrow>
   gauge (dt_collector (pollAll d polls)) ns =
     (if \<exists>n dl. (n, ns, dl) \<in> set polls then 0 else gauge (dt_collector d) ns)"
proof (induction d polls rule: pollAll.induct)
  case (1 d)
  then show ?case by simp
next
  case (2 d n s dl polls)
  let ?d = "PerformDeadlockDetection d n s dl"
  have f: "ns \<notin> set (dt_filter ?d)"
    using "2.prems"(1) by (simp add: PerformDeadlockDetection_filter)
  have ns: "\<not> (s = ns \<and> dl \<and> n \<in> set (lookupScan (dt_lastScan d) ns))"
    using "2.prems"(3) by (auto split: if_splits)
  have fl: "ns \<notin> set (dt_flaggedNamespaces ?d)"
    using "2.prems"(2) ns by (simp add: poll_flagged)
  have rest: "filter (\<lambda>(n, s, dl). s = ns \<and> dl \<and> n \<in> set (lookupScan (dt_lastScan ?d) ns)) polls = []"
    using "2.prems"(3) by (auto simp: PerformDeadlockDetection_lastScan split: if_splits)
  have IH: "gauge (dt_collector (pollAll ?d polls)) ns =
     (if \<exists>n dl. (n, ns, dl) \<in> set polls then 0 else gauge (dt_collector ?d) ns)"
    using f fl rest by (rule "2.IH")
  show ?case
  proof (cases "s = ns")
    case True
    then have "gauge (dt_collector ?d) ns = 0"
      using poll_gauge_zeroed[OF "2.prems"(1) "2.prems"(2), of dl n] ns by simp
    then show ?thesis using IH True by auto
  next
    case False
    then have "gauge (dt_collector ?d) ns = gauge (dt_collector d) ns"
      by (rule poll_gauge_other)
    then show ?thesis using IH False by auto
  qed
qed

lemma endOfCycle_flagged:
  "\<forall>s \<in> set (dt_flaggedNamespaces d). map_of (dt_currentScan d) s \<noteq> None \<Longrightarrow>
   dt_flaggedNamespaces (endOfCycle innerReset d) = dt_flaggedNamespaces d"
  by (simp add: endOfCycle_def split: prod.split)

lemma endOfCycle_lastScan:
  "dt_lastScan (endOfCycle innerReset d) =
     snd (buildLastScanCopy innerReset (dt_collector d) (dt_currentScan d))"
  by (simp add: endOfCycle_def split: prod.split)

lemma endOfCycle_filter: "dt_filter (endOfCycle innerReset d) = dt_filter d"
  by (simp add: endOfCycle_def split: prod.split)

lemma pollingCycle_lastScan:
  assumes "ns \<notin> set (dt_filter d)"
  shows "name \<in> set (lookupScan (dt_lastScan (pollingCycle innerReset d polls)) ns) \<longleftrightarrow>
           (name, ns, True) \<in> set polls"
proof -
  let ?s = "pollAll (startOfCycle d) polls"
  have f: "ns \<notin> set (dt_filter (startOfCycle d))" using assms by (simp add: startOfCycle_def)
  have dist: "distinct (map fst (dt_currentScan ?s))"
    by (rule pollAll_distinct) (simp add: startOfCycle_def)
  have "set (lookupScan (dt_lastScan (pollingCycle innerReset d polls)) ns) =
      set (lookupScan (dt_currentScan ?s) ns)"
    using buildLastScanCopy_copy[of innerReset "dt_collector ?s" "dt_currentScan ?s" ns] dist
    by (simp add: pollingCycle_def endOfCycle_lastScan)
  moreover have "name \<in> set (lookupScan (dt_currentScan ?s) ns) \<longleftrightarrow> (name, ns, True) \<in> set polls"
    using pollAll_recorded[OF f, of name polls] by (simp add: startOfCycle_def lookupScan_def)
  ultimately show ?thesis by simp
qed

lemma pollingCycle_filter: "dt_filter (pollingCycle innerReset d polls) = dt_filter d"
  by (simp add: pollingCycle_def endOfCycle_filter pollAll_filter startOfCycle_def)

text \<open>
  Claim C2. Two consecutive polling cycles from any tracker, the polls \<open>polls1\<close> and then
  the polls \<open>polls2\<close>, and a namespace \<open>ns\<close> that is not filtered. The stuck polls are
  the polls of the second cycle that find an identity of \<open>ns\<close> failing which the first
  cycle found failing too.
  \<^item> After the second cycle \<open>ns\<close> is flagged exactly when there is a stuck poll: an
    identity that fails in one of the two cycles only does not flag it, whatever the
    cycles before did, and a namespace flagged by the cycle before stays flagged
    only while an identity fails again.
  \<^item> The polls of the second cycle call \<open>IncCollector ns\<close> once for each stuck poll and
    never otherwise: an identity that fails in one cycle only is not counted, and one
    that fails in both is counted exactly once by its poll.
  \<^item> When there is no stuck poll and an object of \<open>ns\<close> is polled, the polls of the
    second cycle leave the gauge of \<open>ns\<close> at zero.
\<close>

theorem stuck_on_consecutive_cycles:
  assumes "ns \<notin> set (dt_filter d)"
  shows "(let d1 = pollingCycle innerReset d polls1;
              polled = pollAll (startOfCycle d1) polls2;
              d2 = pollingCycle innerReset d1 polls2
          in (ns \<in> set (dt_flaggedNamespaces d2) \<longleftrightarrow> stuckPolls ns polls1 polls2 \<noteq> [])
           \<and> incCalls ns (dt_collector polled) =
               incCalls ns (dt_collector d1) + length (stuckPolls ns polls1 polls2)
           \<and> (stuckPolls ns polls1 polls2 = [] \<and> (\<exists>name deadlocked. (name, ns, deadlocked) \<in> set polls2) \<longrightarrow>
                gauge (dt_collector polled) ns = 0))"
proof -
  let ?d1 = "pollingCycle innerReset d polls1"
  let ?b = "startOfCycle ?d1"
  let ?p = "pollAll ?b polls2"
  let ?d2 = "pollingCycle innerReset ?d1 polls2"
  have f1: "ns \<notin> set (dt_filter ?b)"
    using assms by (simp add: startOfCycle_def pollingCycle_filter)
  have last: "dt_lastScan ?b = dt_lastScan ?d1" by (simp add: startOfCycle_def)
  have hit: "n \<in> set (lookupScan (dt_lastScan ?b) ns) \<longleftrightarrow> (n, ns, True) \<in> set polls1" for n
    unfolding last using assms by (rule pollingCycle_lastScan)
  have st: "filter (\<lambda>(n, s, dl). s = ns \<and> dl \<and> n \<in> set (lookupScan (dt_lastScan ?b) ns)) polls2 =
      stuckPolls ns polls1 polls2"
    unfolding stuckPolls_def by (rule filter_cong) (auto simp: hit)
  have nofl: "dt_flaggedNamespaces ?b = []" by (simp add: startOfCycle_def)
  have pres: "\<forall>s \<in> set (dt_flaggedNamespaces ?p). map_of (dt_currentScan ?p) s \<noteq> None"
    by (rule pollAll_flagged_present) (simp add: nofl)
  have fl2: "dt_flaggedNamespaces ?d2 = dt_flaggedNamespaces ?p"
    unfolding pollingCycle_def[of innerReset ?d1 polls2] using pres by (rule endOfCycle_flagged)
  have 1: "ns \<in> set (dt_flaggedNamespaces ?d2) \<longleftrightarrow> stuckPolls ns polls1 polls2 \<noteq> []"
    unfolding fl2 using pollAll_flagged[OF f1, of polls2] unfolding st nofl by simp
  have 2: "incCalls ns (dt_collector ?p) = incCalls ns (dt_collector ?d1) + length (stuckPolls ns polls1 polls2)"
  proof -
    have col: "dt_collector ?b = dt_collector ?d1" by (simp add: startOfCycle_def)
    show ?thesis using pollAll_incCalls[OF f1, of polls2] unfolding st col .
  qed
  have 3: "gauge (dt_collector ?p) ns = 0"
    if "stuckPolls ns polls1 polls2 = [] \<and> (\<exists>name deadlocked. (name, ns, deadlocked) \<in> set polls2)"
  proof -
    have "ns \<notin> set (dt_flaggedNamespaces ?b)" by (simp add: nofl)
    moreover have "filter (\<lambda>(n, s, dl). s = ns \<and> dl \<and> n \<in> set (lookupScan (dt_lastScan ?b) ns)) polls2 = []"
      unfolding st using that by simp
    ultimately have "gauge (dt_collector ?p) ns =
        (if \<exists>n dl. (n, ns, dl) \<in> set polls2 then 0 else gauge (dt_collector ?b) ns)"
      by (rule pollAll_gauge_zeroed[OF f1])
    then show ?thesis using that by auto
  qed
  show ?thesis unfolding Let_def using 1 2 3 by blast
qed

text \<open>
  The identity \<open>run1\<close> of the namespace \<open>ns\<close>, polled once in each cycle. Failing in the
  first cycle it is recorded, not counted; failing again in the second it is counted
  once and \<open>ns\<close> is flagged; recovered in the third, \<open>ns\<close> is no longer flagged and its
  gauge is zero. Failing, recovered and failing again, it is never counted.
\<close>

theorem stuck_on_consecutive_cycles_witness:
  "''ns'' \<notin> set (dt_filter (ex_tracker [] [] [] []))
   \<and> pollingCycle (\<lambda>calls keys. calls) (ex_tracker [] [] [] []) [(''run1'', ''ns'', True)] =
       ex_tracker [(''ns'', [''run1''])] [(''ns'', [''run1''])] [] [ZeroCollector ''ns'']
   \<and> stuckPolls ''ns'' [(''run1'', ''ns'', True)] [(''run1'', ''ns'', True)] = [(''run1'', ''ns'', True)]
   \<and> pollingCycle (\<lambda>calls keys. calls)
         (ex_tracker [(''ns'', [''run1''])] [(''ns'', [''run1''])] [] [ZeroCollector ''ns''])
         [(''run1'', ''ns'', True)] =
       ex_tracker [(''ns'', [''run1''])] [(''ns'', [''run1''])] [''ns'']
         [ZeroCollector ''ns'', IncCollector ''ns'']
   \<and> incCalls ''ns'' [ZeroCollector ''ns'', IncCollector ''ns''] = 1
   \<and> stuckPolls ''ns'' [(''run1'', ''ns'', True)] [(''run1'', ''ns'', False)] = []
   \<and> pollingCycle (\<lambda>calls keys. calls)
         (ex_tracker [(''ns'', [''run1''])] [(''ns'', [''run1''])] [''ns'']
            [ZeroCollector ''ns'', IncCollector ''ns''])
         [(''run1'', ''ns'', False)] =
       ex_tracker [(''ns'', [])] [(''ns'', [])] []
         [ZeroCollector ''ns'', IncCollector ''ns'', ZeroCollector ''ns'']
   \<and> gauge [ZeroCollector ''ns'', IncCollector ''ns'', ZeroCollector ''ns''] ''ns'' = 0
   \<and> pollingCycle (\<lambda>calls keys. calls)
         (pollingCycle (\<lambda>calls keys. calls)
            (ex_tracker [(''ns'', [''run1''])] [(''ns'', [''run1''])] [] [ZeroCollector ''ns''])
            [(''run1'', ''ns'', False)])
         [(''run1'', ''ns'', True)] =
       ex_tracker [(''ns'', [''run1''])] [(''ns'', [''run1''])] []
         [ZeroCollector ''ns'', ZeroCollector ''ns'', ZeroCollector ''ns'']"
proof -
  let ?ir = "\<lambda>(calls::CollectorCall list) (keys::string list). calls"
  let ?fail = "[(''run1'', ''ns'', True)]"
  let ?ok = "[(''run1'', ''ns'', False)]"
  let ?t0 = "ex_tracker [] [] [] []"
  let ?t1 = "ex_tracker [(''ns'', [''run1''])] [(''ns'', [''run1''])] [] [ZeroCollector ''ns'']"
  let ?t2 = "ex_tracker [(''ns'', [''run1''])] [(''ns'', [''run1''])] [''ns'']
         [ZeroCollector ''ns'', IncCollector ''ns'']"
  let ?t3 = "ex_tracker [(''ns'', [])] [(''ns'', [])] []
         [ZeroCollector ''ns'', IncCollector ''ns'', ZeroCollector ''ns'']"
  note cycle_defs = pollingCycle_def endOfCycle_def startOfCycle_def buildLastScanCopy_def
    copyObjMap_def tracker_defs
  have f: "''ns'' \<notin> set (dt_filter (ex_tracker l c fl calls))" for l c fl calls
    by (simp add: ex_tracker_def)
  have e1: "pollingCycle ?ir ?t0 ?fail = ?t1" by (simp add: cycle_defs)
  have e2: "pollingCycle ?ir ?t1 ?fail = ?t2" by (simp add: cycle_defs)
  have e3: "pollingCycle ?ir ?t2 ?ok = ?t3" by (simp add: cycle_defs)
  have e4: "pollingCycle ?ir (pollingCycle ?ir ?t1 ?ok) ?fail =
      ex_tracker [(''ns'', [''run1''])] [(''ns'', [''run1''])] []
         [ZeroCollector ''ns'', ZeroCollector ''ns'', ZeroCollector ''ns'']"
    by (simp add: cycle_defs)
  have s1: "stuckPolls ''ns'' ?fail ?fail = ?fail" by (simp add: stuckPolls_def)
  have s2: "stuckPolls ''ns'' ?fail ?ok = []" by (simp add: stuckPolls_def)
  have p2: "pollAll (startOfCycle ?t1) ?fail = ?t2"
    by (simp add: startOfCycle_def tracker_defs)
  have p3: "pollAll (startOfCycle ?t2) ?ok =
      ex_tracker [(''ns'', [''run1''])] [(''ns'', [])] []
        [ZeroCollector ''ns'', IncCollector ''ns'', ZeroCollector ''ns'']"
    by (simp add: startOfCycle_def tracker_defs)
  from stuck_on_consecutive_cycles [OF f [of "[]" "[]" "[]" "[]"],
      where innerReset = ?ir and ?polls1.0 = ?fail and ?polls2.0 = ?fail]
  have "incCalls ''ns'' (dt_collector (pollAll (startOfCycle ?t1) ?fail)) =
      incCalls ''ns'' (dt_collector ?t1) + length (stuckPolls ''ns'' ?fail ?fail)"
    unfolding Let_def e1 by blast
  then have i: "incCalls ''ns'' [ZeroCollector ''ns'', IncCollector ''ns''] = 1"
    unfolding p2 s1 by (simp add: ex_tracker_def incCalls_def)
  from stuck_on_consecutive_cycles [OF f [of "[(''ns'', [''run1''])]" "[(''ns'', [''run1''])]" "[]" "[ZeroCollector ''ns'']"],
      where innerReset = ?ir and ?polls1.0 = ?fail and ?polls2.0 = ?ok]
  have "stuckPolls ''ns'' ?fail ?ok = [] \<and> (\<exists>name deadlocked. (name, ''ns'', deadlocked) \<in> set ?ok) \<longrightarrow>
      gauge (dt_collector (pollAll (startOfCycle ?t2) ?ok)) ''ns'' = 0"
    unfolding Let_def e2 by blast
  moreover have "\<exists>name deadlocked. (name, ''ns'', deadlocked) \<in> set ?ok"
    by (intro exI[of _ "''run1''"] exI[of _ False]) simp
  ultimately have "gauge (dt_collector (pollAll (startOfCycle ?t2) ?ok)) ''ns'' = 0"
    using s2 by blast
  then have g: "gauge [ZeroCollector ''ns'', IncCollector ''ns'', ZeroCollector ''ns''] ''ns'' = 0"
    unfolding p3 by (simp add: ex_tracker_def)
  show ?thesis using f e1 s1 e2 i s2 e3 g e4 by simp
qed

end
